theory Spec2Isabelle
  imports Complex_Main
begin

section \<open>Numbers and errors\<close>

text \<open>
  The analytics core computes on Python floats (IEEE-754 doubles) held in pandas
  columns.  A double that is not NaN is a real number, so a column cell is a
  \<open>real option\<close>: \<open>None\<close> is NaN (what \<open>dropna\<close> removes and \<open>math.isnan\<close>
  tests), \<open>Some x\<close> a finite value.  Infinities are outside the model of the
  columns; they appear only as results of tenor parsing, which has a type of its own.

  Two levels of arithmetic are used.
  \<^item> \<open>modules/calculations.py\<close> (bootstrap, alignment, interpolation) is embedded in
    exact real arithmetic: every theorem about it quantifies over all real inputs, hence
    over all double inputs, and abstracts only the rounding of intermediate results.
  \<^item> \<open>modules/hedging.py\<close> rounds results to two and four decimals, where one unit in
    the last place of a double decides the reported digit.  It is embedded (as is tenor
    parsing, which converts text to doubles) with the
    rounding of every operation written out: \<open>fl x\<close> is the double nearest to the
    real \<open>x\<close> (round to nearest, ties to even, 53 significant bits, gradual underflow
    below \<open>2^-1022\<close>; overflow to infinity is outside the model).

  An exception of the source is a value of \<open>py_error\<close>; a function that can raise
  returns \<open>py_error + 'a\<close>.
\<close>

datatype py_error = ValueError | ZeroDivisionError | IndexError | KeyError | OverflowError

text \<open>Rounding to the nearest integer, ties to the even one: Python's \<open>round(x)\<close>,
  numpy's and pandas' \<open>.round()\<close>.\<close>

definition round_half_even :: "real \<Rightarrow> int" where
  "round_half_even x =
     (let f = \<lfloor>x\<rfloor>; d = x - of_int f
      in if d < 1/2 then f else if 1/2 < d then f + 1 else if even f then f else f + 1)"

definition pow2 :: "int \<Rightarrow> real" where
  "pow2 e = (if 0 \<le> e then 2 ^ nat e else 1 / 2 ^ nat (- e))"

text \<open>\<open>bsearch k lo x\<close> is the largest \<open>e\<close> in \<open>lo .. lo + 2^k - 1\<close> with
  \<open>2^e \<le> x\<close> (and \<open>lo\<close> when there is none): the exponent of a double, found by
  bisection over the eleven exponent bits.\<close>

primrec bsearch :: "nat \<Rightarrow> int \<Rightarrow> real \<Rightarrow> int" where
  "bsearch 0 lo x = lo"
| "bsearch (Suc k) lo x =
     (if pow2 (lo + 2 ^ k) \<le> x then bsearch k (lo + 2 ^ k) x else bsearch k lo x)"

definition binade :: "real \<Rightarrow> int" where
  "binade x = bsearch 11 (- 1022) \<bar>x\<bar>"

definition fl :: "real \<Rightarrow> real" where
  "fl x = (let u = pow2 (binade x - 52) in of_int (round_half_even (x / u)) * u)"

text \<open>\<open>round(x, nd)\<close> on a float: the decimal with \<open>nd\<close> places nearest to the exact
  value of \<open>x\<close> (ties to even), converted back to the nearest double.\<close>

definition py_round :: "nat \<Rightarrow> real \<Rightarrow> real" where
  "py_round nd x = fl (of_int (round_half_even (x * 10 ^ nd)) / 10 ^ nd)"

text \<open>Float division raises \<open>ZeroDivisionError\<close> on a zero divisor.\<close>

definition fdiv :: "real \<Rightarrow> real \<Rightarrow> py_error + real" where
  "fdiv a b = (if b = 0 then Inl ZeroDivisionError else Inr (fl (a / b)))"

definition float_of_int :: "int \<Rightarrow> real" where
  "float_of_int i = fl (of_int i)"

text \<open>\<open>str.upper\<close> on ASCII text.\<close>

definition upper_char :: "char \<Rightarrow> char" where
  "upper_char c =
     (case map_of (zip ''abcdefghijklmnopqrstuvwxyz'' ''ABCDEFGHIJKLMNOPQRSTUVWXYZ'') c of
        None \<Rightarrow> c
      | Some u \<Rightarrow> u)"

definition py_upper :: "string \<Rightarrow> string" where
  "py_upper s = map upper_char s"

section \<open>Curve frames\<close>

text \<open>
  A curve frame is the list of its rows in positional order; the columns the core reads
  are \<open>years\<close> and the rate column (\<open>yield\<close> for bonds, \<open>rate\<close> for swaps).  The
  index is the default one: the label of a row is its position in the frame as given.
\<close>

record curve_row =
  years :: "real option"
  rate :: "real option"

section \<open>modules/calculations.py: the zero-curve bootstrap\<close>

text \<open>
  \<open>dropna(subset=["years", rate]).sort_values("years")\<close>: the rows with both cells
  present, as pairs (years, rate), in ascending \<open>years\<close>.  Rows with equal
  \<open>years\<close> stay in frame order.
\<close>

definition valid_rows :: "curve_row list \<Rightarrow> (real \<times> real) list" where
  "valid_rows df =
     concat (map (\<lambda>r. case (years r, rate r) of
                          (Some y, Some v) \<Rightarrow> [(y, v)]
                        | _ \<Rightarrow> []) df)"

definition sort_values_years :: "(real \<times> real) list \<Rightarrow> (real \<times> real) list" where
  "sort_values_years rows = sort_key fst rows"

text \<open>\<open>drop_duplicates(subset=["N"])\<close> keeps the first row of every \<open>N\<close>.\<close>

fun drop_duplicates :: "(int \<times> real) list \<Rightarrow> (int \<times> real) list" where
  "drop_duplicates [] = []"
| "drop_duplicates (p # ps) = p # drop_duplicates (filter (\<lambda>q. fst q \<noteq> fst p) ps)"

text \<open>The frame the bootstrap loops iterate over: the period index
  \<open>N = round(years * freq)\<close> with its quoted rate (in percent), for \<open>N > 0\<close>.\<close>

definition indexed_rows :: "curve_row list \<Rightarrow> int \<Rightarrow> (int \<times> real) list" where
  "indexed_rows df freq =
     map (\<lambda>(y, v). (round_half_even (y * of_int freq), v)) (sort_values_years (valid_rows df))"

definition period_points :: "curve_row list \<Rightarrow> int \<Rightarrow> (int \<times> real) list" where
  "period_points df freq =
     drop_duplicates (filter (\<lambda>(N, v). 0 < N) (indexed_rows df freq))"

text \<open>The discount-factor table \<open>DF\<close> is a dictionary from period index to discount
  factor.  \<open>present_sum w DF N\<close> is the loop
  \<open>for k in range(1, N): if k in DF: s += w * DF[k]\<close>.\<close>

definition present_sum :: "real \<Rightarrow> (int \<rightharpoonup> real) \<Rightarrow> int \<Rightarrow> real" where
  "present_sum w DF N =
     foldl (\<lambda>s k. case DF k of None \<Rightarrow> s | Some v \<Rightarrow> s + w * v) 0 [1 .. N - 1]"

text \<open>\<open>max(min(DF_N, 1.0), 1e-12)\<close>\<close>

definition clamp_df :: "real \<Rightarrow> real" where
  "clamp_df v = max (min v 1) (1 / 10 ^ 12)"

text \<open>The body of the bond loop up to the stored value: the discount factor of period
  \<open>N\<close> for a par yield of \<open>y_pct\<close> percent.  The division raises when
  \<open>100 + c = 0\<close>.\<close>

definition bond_df :: "int \<Rightarrow> real \<Rightarrow> (int \<rightharpoonup> real) \<Rightarrow> int \<Rightarrow> py_error + real" where
  "bond_df freq y_pct DF N =
     (if freq = 0 then Inl ZeroDivisionError
      else
       (let y = y_pct / 100;
            c = (y / of_int freq) * 100;
            coupon_sum = present_sum c DF N;
            denom = 100 + c;
            numer = 100 - coupon_sum
        in if numer \<le> 1 / 10 ^ 9 then Inr (clamp_df (1 / 10 ^ 12))
           else if denom = 0 then Inl ZeroDivisionError
           else Inr (clamp_df (numer / denom))))"

text \<open>The body of the swap loop up to the stored value; \<open>alpha = 1.0 / freq\<close> is
  computed before the loop.\<close>

definition swap_df :: "real \<Rightarrow> real \<Rightarrow> (int \<rightharpoonup> real) \<Rightarrow> int \<Rightarrow> py_error + real" where
  "swap_df alpha rate_pct DF N =
     (let S = rate_pct / 100;
          annuity = present_sum alpha DF N
      in if 1 + S * alpha = 0 then Inl ZeroDivisionError
         else Inr (clamp_df ((1 - S * annuity) / (1 + S * alpha))))"

text \<open>The zero yield at \<open>t = N / freq\<close>: continuous compounding for \<open>comp == "cont"\<close>,
  annual compounding otherwise.\<close>

definition zero_yield :: "string \<Rightarrow> real \<Rightarrow> real \<Rightarrow> real" where
  "zero_yield cmode DF_N t =
     (if cmode = ''cont'' then - ln DF_N / max t (1 / 10 ^ 12)
      else DF_N powr (- 1 / max t (1 / 10 ^ 12)) - 1)"

text \<open>
  Both bootstraps run the same loop over the period points, with the running table
  \<open>DF\<close> and the list of output rows (years, zero yield in percent) as state;
  \<open>solve\<close> is the body that computes the discount factor (\<open>bond_df freq\<close> or
  \<open>swap_df alpha\<close>).
\<close>

fun bootstrap_loop ::
    "(real \<Rightarrow> (int \<rightharpoonup> real) \<Rightarrow> int \<Rightarrow> py_error + real) \<Rightarrow> int \<Rightarrow> string
      \<Rightarrow> (int \<times> real) list \<Rightarrow> (int \<rightharpoonup> real) \<times> (real \<times> real) list
      \<Rightarrow> py_error + (int \<rightharpoonup> real) \<times> (real \<times> real) list" where
  "bootstrap_loop solve freq cmode [] st = Inr st"
| "bootstrap_loop solve freq cmode ((N, q) # ps) (DF, rows) =
     (case solve q DF N of
        Inl e \<Rightarrow> Inl e
      | Inr DF_N \<Rightarrow>
          bootstrap_loop solve freq cmode ps
            (DF(N \<mapsto> DF_N),
             rows @ [(of_int N / of_int freq,
                      zero_yield cmode DF_N (of_int N / of_int freq) * 100)]))"


definition bond_table ::
    "curve_row list \<Rightarrow> int \<Rightarrow> string \<Rightarrow> py_error + (int \<rightharpoonup> real) \<times> (real \<times> real) list" where
  "bond_table df_country freq cmode =
     bootstrap_loop (bond_df freq) freq cmode (period_points df_country freq) (Map.empty, [])"


definition swap_table ::
    "curve_row list \<Rightarrow> int \<Rightarrow> string \<Rightarrow> py_error + (int \<rightharpoonup> real) \<times> (real \<times> real) list" where
  "swap_table df_swaps freq cmode =
     (if freq = 0 then Inl ZeroDivisionError
      else bootstrap_loop (swap_df (1 / of_int freq)) freq cmode (period_points df_swaps freq)
             (Map.empty, []))"


subsection \<open>The bootstrap as the specification words it\<close>





section \<open>modules/calculations.py: cleaned curves, alignment and spreads\<close>

text \<open>
  \<open>_clean_curve\<close> and \<open>_clean_par_curve\<close> on a frame that has its \<open>years\<close> and rate
  columns: drop the rows with a missing cell, group the rows of equal \<open>years\<close> and
  average their rates, in ascending \<open>years\<close>.  A cleaned curve is a list of pairs
  (years, rate).
\<close>

definition mean :: "real list \<Rightarrow> real" where
  "mean vs = sum_list vs / of_nat (length vs)"

definition clean_curve :: "curve_row list \<Rightarrow> (real \<times> real) list" where
  "clean_curve df =
     (let rows = sort_values_years (valid_rows df)
      in map (\<lambda>y. (y, mean (map snd (filter (\<lambda>r. fst r = y) rows))))
             (sort (remdups (map fst rows))))"

subsection \<open>Asset-swap spread by interpolation\<close>

text \<open>
  \<open>numpy.interp(x, xp, fp, left=fp[0], right=fp[-1])\<close> for increasing \<open>xp\<close>, on the
  knots \<open>zip xp fp\<close>: \<open>left\<close> below the first knot, \<open>right\<close> above the last one, and
  between two knots \<open>xp[j] \<le> x < xp[j+1]\<close> the value
  \<open>(fp[j+1] - fp[j]) / (xp[j+1] - xp[j]) * (x - xp[j]) + fp[j]\<close>.
  \<open>interp_from\<close> walks the knots from the first one, for \<open>x\<close> not below it.
\<close>

fun interp_from :: "real \<Rightarrow> (real \<times> real) list \<Rightarrow> real" where
  "interp_from x [] = 0"
| "interp_from x [(x0, y0)] = y0"
| "interp_from x ((x0, y0) # (x1, y1) # knots) =
     (if x < x1 then (if x = x0 then y0 else (y1 - y0) / (x1 - x0) * (x - x0) + y0)
      else interp_from x ((x1, y1) # knots))"

definition np_interp :: "real \<Rightarrow> (real \<times> real) list \<Rightarrow> real" where
  "np_interp x knots =
     (if fst (last knots) < x then snd (last knots)
      else if x < fst (hd knots) then snd (hd knots)
      else interp_from x knots)"

text \<open>\<open>asw_spread\<close>: the rows (years, spread in bp), one per row of the cleaned bond
  curve, sorted by years; the empty table when the bond curve is empty or the swap curve
  has fewer than two points.\<close>

definition asw_spread :: "curve_row list \<Rightarrow> curve_row list \<Rightarrow> (real \<times> real) list" where
  "asw_spread df_bonds df_swaps_same_ccy =
     (let a = clean_curve df_bonds;
          b = clean_curve df_swaps_same_ccy
      in if a = [] \<or> length b < 2 then []
         else sort_key fst (map (\<lambda>(x, bond). (x, (bond - np_interp x b) * 100)) a))"

subsection \<open>Alignment of a target curve on a reference curve\<close>

text \<open>\<open>a.merge(b[["years", "ref"]], on="years", how="inner")\<close> on cleaned curves: the
  rows (years, target rate, reference rate) for the \<open>years\<close> that both hold, the same
  float on both sides, in the order of \<open>a\<close>.\<close>

definition exact_join :: "(real \<times> real) list \<Rightarrow> (real \<times> real) list \<Rightarrow> (real \<times> real \<times> real) list" where
  "exact_join a b =
     concat (map (\<lambda>(x, y). map (\<lambda>(k, r). (x, y, r)) (filter (\<lambda>(k, r). k = x) b)) a)"

text \<open>\<open>max(2, int(0.3 * min(len(a), len(b))))\<close>\<close>

definition fallback_threshold :: "(real \<times> real) list \<Rightarrow> (real \<times> real) list \<Rightarrow> int" where
  "fallback_threshold a b = max 2 \<lfloor>(3 / 10) * real (min (length a) (length b))\<rfloor>"

definition needs_fallback ::
    "(real \<times> real) list \<Rightarrow> (real \<times> real) list \<Rightarrow> (real \<times> real \<times> real) list \<Rightarrow> bool" where
  "needs_fallback a b m = (m = [] \<or> int (length m) < fallback_threshold a b)"

text \<open>
  \<open>pd.merge_asof(a, b, on="years", direction="nearest", tolerance=tol)\<close> on curves
  sorted by \<open>years\<close>.  The backward candidate of a target \<open>x\<close> is the last reference
  row with \<open>years \<le> x\<close>, the forward candidate the first one with \<open>years \<ge> x\<close>; a
  candidate farther than \<open>tol\<close> is dropped; of two candidates the nearer one is taken,
  the backward one on a tie.  A negative tolerance is refused (\<open>MergeError\<close>, a
  \<open>ValueError\<close>).
\<close>

definition backward_match :: "real \<Rightarrow> real \<Rightarrow> (real \<times> real) list \<Rightarrow> (real \<times> real) option" where
  "backward_match tol x b =
     (case filter (\<lambda>(k, r). k \<le> x) b of
        [] \<Rightarrow> None
      | p # ps \<Rightarrow> if tol < x - fst (last (p # ps)) then None else Some (last (p # ps)))"

definition forward_match :: "real \<Rightarrow> real \<Rightarrow> (real \<times> real) list \<Rightarrow> (real \<times> real) option" where
  "forward_match tol x b =
     (case filter (\<lambda>(k, r). x \<le> k) b of
        [] \<Rightarrow> None
      | p # ps \<Rightarrow> if tol < fst p - x then None else Some p)"

definition nearest_match :: "real \<Rightarrow> real \<Rightarrow> (real \<times> real) list \<Rightarrow> (real \<times> real) option" where
  "nearest_match tol x b =
     (case (backward_match tol x b, forward_match tol x b) of
        (Some bw, Some fw) \<Rightarrow> if x - fst bw \<le> fst fw - x then Some bw else Some fw
      | (Some bw, None) \<Rightarrow> Some bw
      | (None, fw) \<Rightarrow> fw)"

text \<open>The rows of the nearest merge that keep a reference rate
  (\<open>dropna(subset=["ref"])\<close>).\<close>

definition merge_asof_nearest ::
    "(real \<times> real) list \<Rightarrow> (real \<times> real) list \<Rightarrow> real \<Rightarrow> (real \<times> real \<times> real) list" where
  "merge_asof_nearest a b tol =
     concat (map (\<lambda>(x, y). case nearest_match tol x b of
                               None \<Rightarrow> []
                             | Some (k, r) \<Rightarrow> [(x, y, r)]) a)"

definition aligned_rows ::
    "(real \<times> real) list \<Rightarrow> (real \<times> real) list \<Rightarrow> real \<Rightarrow> py_error + (real \<times> real \<times> real) list" where
  "aligned_rows a b tol =
     (let m = exact_join a b
      in if needs_fallback a b m
         then (if tol < 0 then Inl ValueError else Inr (merge_asof_nearest a b tol))
         else Inr m)"

text \<open>\<open>add_spread_vs_ref_par\<close>: the rows (years, spread in bp), sorted by years.\<close>

definition add_spread_vs_ref_par ::
    "curve_row list \<Rightarrow> curve_row list \<Rightarrow> real \<Rightarrow> py_error + (real \<times> real) list" where
  "add_spread_vs_ref_par df_target df_ref nearest_tol_years =
     (let a = clean_curve df_target;
          b = clean_curve df_ref
      in if a = [] \<or> b = [] then Inr []
         else
          (case aligned_rows a b nearest_tol_years of
             Inl e \<Rightarrow> Inl e
           | Inr m \<Rightarrow> Inr (sort_key fst (map (\<lambda>(x, y, r). (x, (y - r) * 100)) m))))"

section \<open>modules/hedging.py\<close>

definition y_to_per_period :: "real \<Rightarrow> int \<Rightarrow> py_error + real" where
  "y_to_per_period y_pct freq = fdiv (fl (y_pct / 100)) (float_of_int freq)"

text \<open>The generator sum of \<open>bond_price_clean\<close>: \<open>c / b**k\<close> for \<open>k\<close> in order, added
  onto the running total.\<close>

fun coupon_pv :: "real \<Rightarrow> real \<Rightarrow> nat list \<Rightarrow> real \<Rightarrow> py_error + real" where
  "coupon_pv c b [] acc = Inr acc"
| "coupon_pv c b (k # ks) acc =
     (case fdiv c (fl (b ^ k)) of
        Inl e \<Rightarrow> Inl e
      | Inr t \<Rightarrow> coupon_pv c b ks (fl (acc + t)))"

definition bond_price_clean :: "real \<Rightarrow> real \<Rightarrow> real \<Rightarrow> real \<Rightarrow> int \<Rightarrow> py_error + real" where
  "bond_price_clean face coupon_pct ytm_pct T_years freq =
     (case fdiv (fl (fl (coupon_pct / 100) * face)) (float_of_int freq) of
        Inl e \<Rightarrow> Inl e
      | Inr c \<Rightarrow>
     (case y_to_per_period ytm_pct freq of
        Inl e \<Rightarrow> Inl e
      | Inr y \<Rightarrow>
     (let n = round_half_even (fl (T_years * float_of_int freq)) in
      if n \<le> 0 then Inr face
      else
       (case coupon_pv c (fl (1 + y)) [1 ..< Suc (nat n)] 0 of
          Inl e \<Rightarrow> Inl e
        | Inr s \<Rightarrow>
       (case fdiv face (fl (fl (1 + y) ^ nat n)) of
          Inl e \<Rightarrow> Inl e
        | Inr r \<Rightarrow> Inr (fl (s + r)))))))"

definition bond_dv01 :: "real \<Rightarrow> real \<Rightarrow> real \<Rightarrow> real \<Rightarrow> int \<Rightarrow> real \<Rightarrow> py_error + real" where
  "bond_dv01 face coupon_pct ytm_pct T_years freq bump_bp =
     (case bond_price_clean face coupon_pct ytm_pct T_years freq of
        Inl e \<Rightarrow> Inl e
      | Inr p0 \<Rightarrow>
     (case bond_price_clean face coupon_pct (fl (ytm_pct + fl (bump_bp / 100))) T_years freq of
        Inl e \<Rightarrow> Inl e
      | Inr p_up \<Rightarrow>
     (case fdiv (fl (p_up - p0)) (fl (bump_bp / 10000)) of
        Inl e \<Rightarrow> Inl e
      | Inr dv01 \<Rightarrow> Inr \<bar>dv01\<bar>)))"

text \<open>\<open>dropna(subset=[...]).sort_values("years")\<close>: the rows that pass, each with its
  label, in ascending \<open>years\<close>; equal keys stay in frame order.\<close>

definition labelled_sorted :: "(curve_row \<Rightarrow> bool) \<Rightarrow> curve_row list \<Rightarrow> (nat \<times> real) list" where
  "labelled_sorted keep df =
     sort_key snd
       (concat (map (\<lambda>(i, r). case years r of
                                 None \<Rightarrow> []
                               | Some y \<Rightarrow> if keep r then [(i, y)] else [])
                    (enumerate 0 df)))"

text \<open>\<open>Series.idxmin\<close>: the label of the first smallest value; \<open>ValueError\<close> on an
  empty series.\<close>

fun idxmin_from :: "nat \<times> real \<Rightarrow> (nat \<times> real) list \<Rightarrow> nat" where
  "idxmin_from b [] = fst b"
| "idxmin_from b (p # ps) = idxmin_from (if snd p < snd b then p else b) ps"

definition idxmin :: "(nat \<times> real) list \<Rightarrow> py_error + nat" where
  "idxmin s = (case s of [] \<Rightarrow> Inl ValueError | p # ps \<Rightarrow> Inr (idxmin_from p ps))"

definition abs_diff :: "real \<Rightarrow> (nat \<times> real) list \<Rightarrow> (nat \<times> real) list" where
  "abs_diff t s = map (\<lambda>(i, v). (i, \<bar>fl (v - t)\<bar>)) s"

text \<open>The label that \<open>idxmin\<close> returns is used as a position (\<open>iloc\<close>) in the sorted
  series; a position past its end raises \<open>IndexError\<close>.\<close>

definition pick_nearest_swap_tenor :: "curve_row list \<Rightarrow> real \<Rightarrow> py_error + real option" where
  "pick_nearest_swap_tenor df_swaps T_years =
     (if df_swaps = [] then Inr None
      else
       (let y = labelled_sorted (\<lambda>r. True) df_swaps in
        case idxmin (abs_diff T_years y) of
          Inl e \<Rightarrow> Inl e
        | Inr l \<Rightarrow> if l < length y then Inr (Some (snd (y ! l))) else Inl IndexError))"

text \<open>With a non-empty frame and a NaN tenor every distance is NaN, \<open>idxmin\<close> yields
  NaN and \<open>.loc\<close> raises \<open>KeyError\<close>; \<open>hedge_proposal\<close> never calls it so.\<close>

definition swap_dv01_from_par_curve ::
    "curve_row list \<Rightarrow> real option \<Rightarrow> int \<Rightarrow> py_error + real option" where
  "swap_dv01_from_par_curve df_swaps tenor_years freq =
     (if df_swaps = [] then Inr None
      else
       (let df = labelled_sorted (\<lambda>r. rate r \<noteq> None) df_swaps in
        case tenor_years of
          None \<Rightarrow> if df = [] then Inl ValueError else Inl KeyError
        | Some t \<Rightarrow>
           (case idxmin (abs_diff t df) of
              Inl e \<Rightarrow> Inl e
            | Inr idx \<Rightarrow>
               (case fdiv 1 (float_of_int freq) of
                  Inl e \<Rightarrow> Inl e
                | Inr alpha \<Rightarrow> Inr (Some (fl (fl (t * alpha) * 100)))))))"

definition futures_table :: "(string \<times> real) list" where
  "futures_table =
     [(''FGBL'', 85), (''ZN'', 80), (''ZB'', 120), (''FGBM'', 55), (''FGBS'', 30)]"

text \<open>\<open>None\<close> is the NaN the lookup returns for a symbol the table does not hold.\<close>

definition futures_dv01_lookup :: "string \<Rightarrow> real option" where
  "futures_dv01_lookup symbol = map_of futures_table (py_upper symbol)"

definition liquidity_score :: "bool \<Rightarrow> real option \<Rightarrow> real option \<Rightarrow> real" where
  "liquidity_score is_on_the_run bid_ask_bp est_daily_volume_mm =
     (let s0 = 0;
          s1 = (if is_on_the_run then fl (s0 + fl (4/10)) else s0);
          s2 = (case bid_ask_bp of
                  None \<Rightarrow> s1
                | Some b \<Rightarrow>
                    fl (s1 + max 0 (min (fl (3/10)) (fl (fl (3/10) * fl (2 / max (1/2) b))))));
          s3 = (case est_daily_volume_mm of
                  None \<Rightarrow> s2
                | Some v \<Rightarrow> fl (s2 + max 0 (min (fl (3/10)) (fl (fl (3/10) * fl (v / 200))))))
      in min 1 s3)"

datatype futures_leg =
    FuturesLeg string real real
  | FuturesNote string

datatype irs_leg =
    IrsLeg "real option" real real
  | IrsNote

record hedge_out =
  out_dv01_bond :: real
  out_futures :: "futures_leg option"
  out_irs :: irs_leg
  out_liquidity_score :: real

text \<open>The futures block of \<open>hedge_proposal\<close>, entered when a symbol is given:
  \<open>FuturesLeg symbol dv01_per_contract contracts\<close>, or the note "DV01 inconnu".\<close>

definition futures_hedge :: "real \<Rightarrow> string \<Rightarrow> futures_leg" where
  "futures_hedge dv01_b symbol =
     (case futures_dv01_lookup symbol of
        None \<Rightarrow> FuturesNote symbol
      | Some dv01_fut \<Rightarrow>
          if 0 < dv01_fut then FuturesLeg symbol dv01_fut (py_round 2 (fl (dv01_b / dv01_fut)))
          else FuturesNote symbol)"

text \<open>The swap block of \<open>hedge_proposal\<close>:
  \<open>IrsLeg tenor_years dv01_per_100 receiver_fix_notional\<close>, or the note
  "Courbe swaps indisponible".\<close>

definition irs_hedge :: "real \<Rightarrow> real option \<Rightarrow> real option \<Rightarrow> irs_leg" where
  "irs_hedge dv01_b tenor_swap irs_dv01 =
     (case irs_dv01 of
        None \<Rightarrow> IrsNote
      | Some v \<Rightarrow>
          if 0 < v then IrsLeg tenor_swap v (py_round 4 (fl (fl (dv01_b / v) * 100)))
          else IrsNote)"

text \<open>\<open>if futures_symbol:\<close> holds for a string that is given and not empty.\<close>

definition futures_entry :: "real \<Rightarrow> string option \<Rightarrow> futures_leg option" where
  "futures_entry dv01_b futures_symbol =
     (case futures_symbol of
        None \<Rightarrow> None
      | Some symbol \<Rightarrow> if symbol = [] then None else Some (futures_hedge dv01_b symbol))"

definition hedge_proposal ::
    "real \<Rightarrow> real \<Rightarrow> real \<Rightarrow> real \<Rightarrow> curve_row list \<Rightarrow> string option \<Rightarrow> int
      \<Rightarrow> py_error + hedge_out" where
  "hedge_proposal face coupon_pct ytm_pct T_years df_swaps_ccy futures_symbol swap_freq_by_ccy =
     (case bond_dv01 face coupon_pct ytm_pct T_years 2 1 of
        Inl e \<Rightarrow> Inl e
      | Inr dv01_b \<Rightarrow>
     (let fut = futures_entry dv01_b futures_symbol
      in
      case pick_nearest_swap_tenor df_swaps_ccy T_years of
        Inl e \<Rightarrow> Inl e
      | Inr tenor_swap \<Rightarrow>
     (case swap_dv01_from_par_curve df_swaps_ccy tenor_swap swap_freq_by_ccy of
        Inl e \<Rightarrow> Inl e
      | Inr irs_dv01 \<Rightarrow>
          Inr \<lparr> out_dv01_bond = dv01_b,
                out_futures = fut,
                out_irs = irs_hedge dv01_b tenor_swap irs_dv01,
                out_liquidity_score = py_round 2 (liquidity_score True (Some 1) (Some 50)) \<rparr>)))"


section \<open>Tenor parsing\<close>

text \<open>
  \<open>_tenor_to_years\<close> (\<open>modules/calculations.py\<close>) and \<open>tenor_to_years\<close>
  (\<open>modules/analytics.py\<close>) turn a tenor label into a year fraction.  Their argument is
  any Python value a \<open>tenor\<close> cell can hold; their result is a float, which here can be
  infinite or NaN (\<open>float("INF")\<close>), \<open>None\<close>, or an exception.  Strings are ASCII
  strings.  Finite doubles are real numbers as before, so \<open>-0.0\<close> is \<open>0\<close>.
\<close>

datatype py_float = Finite real | PosInf | NegInf | NaN

datatype py_value = PyNone | PyBool bool | PyInt int | PyFloat py_float | PyStr string

text \<open>The double nearest to a real, with overflow to infinity: the result of parsing a
  decimal literal.\<close>

definition to_double :: "real \<Rightarrow> py_float" where
  "to_double x =
     (let y = fl x
      in if 2 ^ 1024 \<le> \<bar>y\<bar> then (if y < 0 then NegInf else PosInf) else Finite y)"

text \<open>\<open>float(i)\<close> on an \<open>int\<close> rounds the same way and raises \<open>OverflowError\<close> where
  the literal would give infinity.\<close>

definition float_of_pyint :: "int \<Rightarrow> py_error + py_float" where
  "float_of_pyint i =
     (let y = fl (of_int i)
      in if 2 ^ 1024 \<le> \<bar>y\<bar> then Inl OverflowError else Inr (Finite y))"

text \<open>Float division by the constant \<open>12.0\<close>.\<close>

definition div_12 :: "py_float \<Rightarrow> py_float" where
  "div_12 v = (case v of Finite x \<Rightarrow> to_double (x / 12) | _ \<Rightarrow> v)"

text \<open>Whitespace: \<open>str.strip\<close> removes the characters of \<open>str.isspace\<close> (tab to
  carriage return, the four separators \<open>0x1C .. 0x1F\<close>, space); \<open>float\<close>, on an ASCII
  string, removes those of C's \<open>isspace\<close> only (tab to carriage return, space).\<close>

definition str_space :: "char \<Rightarrow> bool" where
  "str_space c \<longleftrightarrow>
     c \<in> set [CHR 0x09, CHR 0x0A, CHR 0x0B, CHR 0x0C, CHR 0x0D, CHR 0x1C, CHR 0x1D, CHR 0x1E,
       CHR 0x1F, CHR '' '']"

definition c_space :: "char \<Rightarrow> bool" where
  "c_space c \<longleftrightarrow> c \<in> set [CHR 0x09, CHR 0x0A, CHR 0x0B, CHR 0x0C, CHR 0x0D, CHR '' '']"

definition strip_with :: "(char \<Rightarrow> bool) \<Rightarrow> string \<Rightarrow> string" where
  "strip_with sp s = rev (dropWhile sp (rev (dropWhile sp s)))"

definition py_strip :: "string \<Rightarrow> string" where
  "py_strip s = strip_with str_space s"

definition endswith :: "string \<Rightarrow> char \<Rightarrow> bool" where
  "endswith s c \<longleftrightarrow> s \<noteq> [] \<and> last s = c"

subsection \<open>The \<open>float\<close> constructor on a string\<close>

text \<open>
  \<open>float(s)\<close> strips whitespace, checks and removes digit-group underscores (each
  between two digits), and reads either a decimal number
  \<open>[sign] (digits [. [digits]] | . digits) [(e|E) [sign] digits]\<close>
  or \<open>[sign] (inf | infinity | nan)\<close> in any letter case; anything left over, or nothing
  read, is a \<open>ValueError\<close>.
\<close>

definition is_digit :: "char \<Rightarrow> bool" where
  "is_digit c \<longleftrightarrow> c \<in> set ''0123456789''"

definition digit_val :: "char \<Rightarrow> nat" where
  "digit_val c =
     (case map_of (zip ''0123456789'' [0, 1, 2, 3, 4, 5, 6, 7, 8, 9]) c of
        None \<Rightarrow> 0
      | Some d \<Rightarrow> d)"

definition digits_val :: "string \<Rightarrow> nat" where
  "digits_val ds = foldl (\<lambda>a c. 10 * a + digit_val c) 0 ds"

text \<open>\<open>underscores prev s\<close>: the text without its underscores, or \<open>None\<close> when an
  underscore does not follow a digit, is not followed by one, or ends the text.\<close>

fun underscores :: "char \<Rightarrow> string \<Rightarrow> string option" where
  "underscores prev [] = (if prev = CHR ''_'' then None else Some [])"
| "underscores prev (c # cs) =
     (if c = CHR ''_'' then (if is_digit prev then underscores c cs else None)
      else if prev = CHR ''_'' \<and> \<not> is_digit c then None
      else map_option ((#) c) (underscores c cs))"

definition sign_split :: "string \<Rightarrow> bool \<times> string" where
  "sign_split s =
     (case s of
        [] \<Rightarrow> (False, [])
      | c # cs \<Rightarrow>
          if c = CHR ''-'' then (True, cs) else if c = CHR ''+'' then (False, cs) else (False, s))"

text \<open>The exponent part and what follows it; an \<open>e\<close> without digits is not read.\<close>

definition exponent :: "string \<Rightarrow> int \<times> string" where
  "exponent s =
     (case s of
        [] \<Rightarrow> (0, [])
      | c # cs \<Rightarrow>
          if c = CHR ''e'' \<or> c = CHR ''E'' then
            (let (neg, s1) = sign_split cs; ds = takeWhile is_digit s1
             in if ds = [] then (0, s)
                else (if neg then - int (digits_val ds) else int (digits_val ds),
                      dropWhile is_digit s1))
          else (0, s))"

text \<open>\<open>strtod s\<close>: the exact value of the longest decimal number that starts \<open>s\<close>, and
  the text after it; \<open>None\<close> when there is no digit to read.\<close>

definition strtod :: "string \<Rightarrow> (real \<times> string) option" where
  "strtod s =
     (let (neg, s1) = sign_split s;
          ip = takeWhile is_digit s1;
          s2 = dropWhile is_digit s1;
          (fp, s3) = (case s2 of
                        [] \<Rightarrow> ([], [])
                      | c # cs \<Rightarrow>
                          if c = CHR ''.'' then (takeWhile is_digit cs, dropWhile is_digit cs)
                          else ([], s2))
      in if ip = [] \<and> fp = [] then None
         else
           (let (ex, s4) = exponent s3;
                m = real (digits_val (ip @ fp)) * 10 powi (ex - int (length fp))
            in Some (if neg then - m else m, s4)))"

definition parse_inf_or_nan :: "string \<Rightarrow> (py_float \<times> string) option" where
  "parse_inf_or_nan s =
     (let (neg, s1) = sign_split s; u = py_upper s1
      in if take 3 u = ''INF'' then
           Some (if neg then NegInf else PosInf,
                 if take 5 (drop 3 u) = ''INITY'' then drop 8 s1 else drop 3 s1)
         else if take 3 u = ''NAN'' then Some (NaN, drop 3 s1)
         else None)"

definition float_of_str :: "string \<Rightarrow> py_error + py_float" where
  "float_of_str s =
     (let t = strip_with c_space s
      in if t = [] then Inl ValueError
         else
           (case underscores (CHR 0x00) t of
              None \<Rightarrow> Inl ValueError
            | Some u \<Rightarrow>
                (case strtod u of
                   Some (x, rest) \<Rightarrow> if rest = [] then Inr (to_double x) else Inl ValueError
                 | None \<Rightarrow>
                     (case parse_inf_or_nan u of
                        Some (v, rest) \<Rightarrow> if rest = [] then Inr v else Inl ValueError
                      | None \<Rightarrow> Inl ValueError))))"

subsection \<open>The two parsers\<close>

text \<open>\<open>_tenor_to_years\<close> of \<open>modules/calculations.py\<close> (an Isabelle name cannot start
  with an underscore).  \<open>bool\<close> is a subclass of \<open>int\<close>; \<open>str\<close> of a string is that
  string.\<close>

definition priv_tenor_to_years :: "py_value \<Rightarrow> py_error + py_float option" where
  "priv_tenor_to_years tenor =
     (case tenor of
        PyNone \<Rightarrow> Inr None
      | PyBool b \<Rightarrow> Inr (Some (Finite (if b then 1 else 0)))
      | PyInt i \<Rightarrow> (case float_of_pyint i of Inl e \<Rightarrow> Inl e | Inr v \<Rightarrow> Inr (Some v))
      | PyFloat x \<Rightarrow> Inr (Some x)
      | PyStr t \<Rightarrow>
          (let s = py_upper (py_strip t)
           in if endswith s CHR ''Y'' then
                (case float_of_str (butlast s) of Inl e \<Rightarrow> Inl e | Inr v \<Rightarrow> Inr (Some v))
              else if endswith s CHR ''M'' then
                (case float_of_str (butlast s) of
                   Inl e \<Rightarrow> Inl e
                 | Inr v \<Rightarrow> Inr (Some (div_12 v)))
              else Inr None))"

text \<open>\<open>tenor_to_years\<close> of \<open>modules/analytics.py\<close>: anything that is not a string
  gives \<open>None\<close>.\<close>

definition tenor_to_years :: "py_value \<Rightarrow> py_error + py_float option" where
  "tenor_to_years tenor =
     (case tenor of
        PyStr t \<Rightarrow>
          (let s = py_upper (py_strip t)
           in if endswith s CHR ''Y'' then
                (case float_of_str (butlast s) of Inl e \<Rightarrow> Inl e | Inr v \<Rightarrow> Inr (Some v))
              else if endswith s CHR ''M'' then
                (case float_of_str (butlast s) of
                   Inl e \<Rightarrow> Inl e
                 | Inr v \<Rightarrow> Inr (Some (div_12 v)))
              else Inr None)
      | _ \<Rightarrow> Inr None)"
section \<open>Evaluation of the rounding model\<close>

lemma bsearch_numeral:
  "bsearch (numeral n) lo x =
     (if pow2 (lo + 2 ^ pred_numeral n) \<le> x
      then bsearch (pred_numeral n) (lo + 2 ^ pred_numeral n) x
      else bsearch (pred_numeral n) lo x)"
  by (simp add: numeral_eq_Suc)

lemmas fl_eval = fl_def binade_def pow2_def round_half_even_def Let_def bsearch_numeral

lemma fl_0 [simp]: "fl 0 = 0"
  by (simp add: fl_eval)

lemma fl_1 [simp]: "fl 1 = 1"
  by (simp add: fl_eval)

lemma fl_2 [simp]: "fl 2 = 2"
  by (simp add: fl_eval)

lemma fl_100 [simp]: "fl 100 = 100"
  by (simp add: fl_eval)

lemma fl_half [simp]: "fl (1 / 2) = 1 / 2"
  by (simp add: fl_eval)

lemma fl_bp: "fl (1 / 10000) = 7378697629483821 / 73786976294838206464"
  by (simp add: fl_eval)

lemma fl_pct: "fl (1 / 100) = 5764607523034235 / 576460752303423488"
  by (simp add: fl_eval)

lemma fl_77: "fl (77 / 100) = 1733885856537641 / 2251799813685248"
  by (simp add: fl_eval)

lemma fl_78: "fl (78 / 100) = 3512807709348987 / 4503599627370496"
  by (simp add: fl_eval)

lemma fl_59: "fl (59 / 100) = 5314247560297185 / 9007199254740992"
  by (simp add: fl_eval)

lemma fl_16: "fl (16 / 100) = 5764607523034235 / 36028797018963968"
  by (simp add: fl_eval)

section \<open>The hedge engine\<close>

lemma liquidity_score_default:
  "liquidity_score True (Some 1) (Some 50) = 1745144855606067 / 2251799813685248"
  unfolding liquidity_score_def Let_def by (simp add: fl_eval)

lemma liquidity_score_reported:
  "py_round 2 (liquidity_score True (Some 1) (Some 50)) = fl (77 / 100)"
  unfolding liquidity_score_default py_round_def fl_77 by (simp add: fl_eval)

lemma futures_table_positive: "futures_dv01_lookup symbol = Some dv \<Longrightarrow> 0 < dv"
  by (auto simp: futures_dv01_lookup_def futures_table_def split: if_splits)

lemma futures_hedge_known:
  assumes "futures_dv01_lookup symbol = Some dv"
  shows "futures_hedge d symbol = FuturesLeg symbol dv (py_round 2 (fl (d / dv)))"
  using assms futures_table_positive [OF assms] by (simp add: futures_hedge_def)

lemma py_upper_FGBL: "py_upper ''FGBL'' = ''FGBL''"
  by (simp add: py_upper_def upper_char_def)


lemma lookup_FGBL: "futures_dv01_lookup ''FGBL'' = Some 85"
  by (simp add: futures_dv01_lookup_def py_upper_FGBL futures_table_def)


lemma futures_hedge_example: "futures_hedge 50 ''FGBL'' = FuturesLeg ''FGBL'' 85 (fl (59 / 100))"
  unfolding futures_hedge_def lookup_FGBL py_round_def fl_59 by (simp add: fl_eval)

lemma irs_hedge_example: "irs_hedge 50 tenor (Some 8) = IrsLeg tenor 8 625"
  unfolding irs_hedge_def py_round_def by (simp add: fl_eval)

lemma hedge_proposal_returns:
  assumes "bond_dv01 face coupon_pct ytm_pct T_years 2 1 = Inr d"
    and "pick_nearest_swap_tenor df T_years = Inr tenor"
    and "swap_dv01_from_par_curve df tenor freq = Inr v"
  shows "hedge_proposal face coupon_pct ytm_pct T_years df fs freq =
           Inr \<lparr> out_dv01_bond = d, out_futures = futures_entry d fs,
                 out_irs = irs_hedge d tenor v, out_liquidity_score = fl (77 / 100) \<rparr>"
  using assms by (simp add: hedge_proposal_def liquidity_score_reported)

lemma swap_leg_empty:
  "pick_nearest_swap_tenor [] T_years = Inr None"
  "swap_dv01_from_par_curve [] tenor freq = Inr None"
  by (simp_all add: pick_nearest_swap_tenor_def swap_dv01_from_par_curve_def)

text \<open>A zero-coupon bond of half a year at a yield of zero: the concrete input of the
  witnesses below.\<close>

lemma price_half_year: "bond_price_clean 100 0 0 (1 / 2) 2 = Inr 100"
  unfolding bond_price_clean_def y_to_per_period_def float_of_int_def Let_def
  apply (simp add: fdiv_def)
  apply (simp add: round_half_even_def upt_rec fdiv_def)
  done

lemma price_half_year_up:
  "bond_price_clean 100 0 (fl (0 + fl (1 / 100))) (1 / 2) 2 =
     Inr (7036522591636817 / 70368744177664)"
  unfolding bond_price_clean_def y_to_per_period_def float_of_int_def Let_def
  apply (simp add: fdiv_def fl_pct)
  apply (simp add: fl_eval upt_rec)
  apply (simp add: fl_eval fdiv_def)
  done

lemma dv01_half_year: "bond_dv01 100 0 0 (1 / 2) 2 1 = Inr (219891330989375 / 4398046511104)"
  unfolding bond_dv01_def price_half_year price_half_year_up
  apply (simp add: fdiv_def fl_bp)
  apply (simp add: fl_eval)
  done


lemma labelled_one_row:
  "labelled_sorted keep [\<lparr>years = Some y, rate = Some r\<rparr>] = (if keep \<lparr>years = Some y, rate = Some r\<rparr> then [(0, y)] else [])"
  by (simp add: labelled_sorted_def enumerate_eq_zip)

lemma pick_one_row:
  "pick_nearest_swap_tenor [\<lparr>years = Some y, rate = Some r\<rparr>] T_years = Inr (Some y)"
  by (simp add: pick_nearest_swap_tenor_def labelled_one_row idxmin_def abs_diff_def)

lemma swap_dv01_one_row:
  "swap_dv01_from_par_curve [\<lparr>years = Some y, rate = Some r\<rparr>] (Some t) 2 =
     Inr (Some (fl (fl (t * (1 / 2)) * 100)))"
  by (simp add: swap_dv01_from_par_curve_def labelled_one_row idxmin_def abs_diff_def
      fdiv_def float_of_int_def)

lemma swap_dv01_16:
  "swap_dv01_from_par_curve [\<lparr>years = Some (fl (16 / 100)), rate = Some 3\<rparr>]
     (Some (fl (16 / 100))) 2 = Inr (Some 8)"
  unfolding swap_dv01_one_row fl_16 by (simp add: fl_eval)


text \<open>
  Claim C7 (hedge sizing).  When the bond DV01 \<open>d\<close> is computed, the futures symbol is
  in the table with per-contract DV01 \<open>dv\<close>, and the swap curve yields a tenor with a
  positive DV01 per 100 \<open>sdv\<close>, the proposal is returned with
  \<open>contracts = round(d / dv, 2)\<close> (a decimal, not an integer) and
  \<open>receiver_fix_notional = round(d / sdv * 100, 4)\<close>.  With a bond DV01 of 50 the
  futures leg on FGBL (85 per contract) reports 0.59 contracts, which is 0.588 to the
  two decimals kept, and a swap DV01 of 8 per 100 gives a notional of 625.
\<close>

theorem hedge_sizing:
  "bond_dv01 face coupon_pct ytm_pct T_years 2 1 = Inr d \<Longrightarrow>
   symbol \<noteq> [] \<Longrightarrow>
   futures_dv01_lookup symbol = Some dv \<Longrightarrow>
   pick_nearest_swap_tenor df T_years = Inr tenor \<Longrightarrow>
   swap_dv01_from_par_curve df tenor freq = Inr (Some sdv) \<Longrightarrow>
   0 < sdv \<Longrightarrow>
     hedge_proposal face coupon_pct ytm_pct T_years df (Some symbol) freq =
       Inr \<lparr> out_dv01_bond = d,
             out_futures = Some (FuturesLeg symbol dv (py_round 2 (fl (d / dv)))),
             out_irs = IrsLeg tenor sdv (py_round 4 (fl (fl (d / sdv) * 100))),
             out_liquidity_score = fl (77 / 100) \<rparr>
     \<and> futures_hedge 50 ''FGBL'' = FuturesLeg ''FGBL'' 85 (fl (59 / 100))
     \<and> \<bar>fl (59 / 100) - 588 / 1000\<bar> < 5 / 1000
     \<and> irs_hedge 50 tenor (Some 8) = IrsLeg tenor 8 625"
proof -
  assume d: "bond_dv01 face coupon_pct ytm_pct T_years 2 1 = Inr d"
    and sym: "symbol \<noteq> []" "futures_dv01_lookup symbol = Some dv"
    and sw: "pick_nearest_swap_tenor df T_years = Inr tenor"
      "swap_dv01_from_par_curve df tenor freq = Inr (Some sdv)" "0 < sdv"
  have fut: "futures_entry d (Some symbol) =
      Some (FuturesLeg symbol dv (py_round 2 (fl (d / dv))))"
    using sym(1) futures_hedge_known [OF sym(2), of d] by (simp add: futures_entry_def)
  have irs: "irs_hedge d tenor (Some sdv) = IrsLeg tenor sdv (py_round 4 (fl (fl (d / sdv) * 100)))"
    using sw(3) by (simp add: irs_hedge_def)
  have "hedge_proposal face coupon_pct ytm_pct T_years df (Some symbol) freq =
       Inr \<lparr> out_dv01_bond = d,
             out_futures = Some (FuturesLeg symbol dv (py_round 2 (fl (d / dv)))),
             out_irs = IrsLeg tenor sdv (py_round 4 (fl (fl (d / sdv) * 100))),
             out_liquidity_score = fl (77 / 100) \<rparr>"
    using hedge_proposal_returns [OF d sw(1) sw(2), of "Some symbol"] by (simp add: fut irs)
  moreover have "\<bar>fl (59 / 100) - 588 / 1000\<bar> < 5 / 1000"
    unfolding fl_59 by simp
  ultimately show ?thesis
    using futures_hedge_example irs_hedge_example by simp
qed

lemma quotient_half_year:
  "fl (219891330989375 / 4398046511104 / 85) = 5298087598426353 / 9007199254740992"
  by (simp add: fl_eval)

lemma quotient_half_year_rounded:
  "round_half_even (5298087598426353 / 9007199254740992 * 10 ^ 2) = 59"
  by (simp add: fl_eval)

lemma contracts_half_year:
  "py_round 2 (fl (219891330989375 / 4398046511104 / 85)) = fl (59 / 100)"
  unfolding py_round_def quotient_half_year quotient_half_year_rounded by simp

theorem hedge_sizing_witness:
  "hedge_proposal 100 0 0 (1 / 2) [\<lparr>years = Some (fl (16 / 100)), rate = Some 3\<rparr>]
       (Some ''FGBL'') 2 =
     Inr \<lparr> out_dv01_bond = 219891330989375 / 4398046511104,
           out_futures = Some (FuturesLeg ''FGBL'' 85
             (py_round 2 (fl (219891330989375 / 4398046511104 / 85)))),
           out_irs = IrsLeg (Some (fl (16 / 100))) 8
             (py_round 4 (fl (fl (219891330989375 / 4398046511104 / 8) * 100))),
           out_liquidity_score = fl (77 / 100) \<rparr>
   \<and> py_round 2 (fl (219891330989375 / 4398046511104 / 85)) = fl (59 / 100)
   \<and> futures_hedge 50 ''FGBL'' = FuturesLeg ''FGBL'' 85 (fl (59 / 100))
   \<and> irs_hedge 50 (Some (fl (16 / 100))) (Some 8) = IrsLeg (Some (fl (16 / 100))) 8 625"
proof -
  have ne: "''FGBL'' \<noteq> []" by simp
  have pos: "(0::real) < 8" by simp
  note h = hedge_sizing [OF dv01_half_year ne lookup_FGBL pick_one_row swap_dv01_16 pos]
  show ?thesis
    using h contracts_half_year by blast
qed





text \<open>
  Claim C10 (the liquidity score is a constant), as amended.  Every proposal that is
  returned carries the same liquidity score, computed from the default arguments
  (on-the-run, bid/ask 1.0 bp, volume 50 mm): the double sum \<open>0.4 + 0.3 + 0.075\<close> is
  \<open>0.7749999999999999\<close>, just below 0.775, so \<open>round(., 2)\<close> reports 0.77.
\<close>

theorem hedge_liquidity_constant:
  "hedge_proposal face coupon_pct ytm_pct T_years df fs freq = Inr out \<Longrightarrow>
     out_liquidity_score out = fl (77 / 100)
   \<and> liquidity_score True (Some 1) (Some 50) = 1745144855606067 / 2251799813685248
   \<and> liquidity_score True (Some 1) (Some 50) < 775 / 1000"
proof -
  assume "hedge_proposal face coupon_pct ytm_pct T_years df fs freq = Inr out"
  then have "out_liquidity_score out = fl (77 / 100)"
    by (auto simp: hedge_proposal_def liquidity_score_reported Let_def split: sum.splits)
  then show ?thesis
    by (simp add: liquidity_score_default)
qed

theorem hedge_liquidity_constant_witness:
  "hedge_proposal 100 0 0 (1 / 2) [] None 2 =
     Inr \<lparr> out_dv01_bond = 219891330989375 / 4398046511104, out_futures = None,
           out_irs = IrsNote, out_liquidity_score = fl (77 / 100) \<rparr>
   \<and> out_liquidity_score \<lparr> out_dv01_bond = 219891330989375 / 4398046511104,
        out_futures = None, out_irs = IrsNote, out_liquidity_score = fl (77 / 100) \<rparr>
       = fl (77 / 100)"
proof -
  have c: "hedge_proposal 100 0 0 (1 / 2) [] None 2 =
       Inr \<lparr> out_dv01_bond = 219891330989375 / 4398046511104, out_futures = None,
             out_irs = IrsNote, out_liquidity_score = fl (77 / 100) \<rparr>"
    using hedge_proposal_returns [OF dv01_half_year swap_leg_empty(1) swap_leg_empty(2), of None 2]
    by (simp add: futures_entry_def irs_hedge_def)
  show ?thesis
    using hedge_liquidity_constant [OF c] c by simp
qed

theorem hedge_liquidity_constant_counterexample:
  "hedge_proposal 100 0 0 (1 / 2) [] None 2 =
     Inr \<lparr> out_dv01_bond = 219891330989375 / 4398046511104, out_futures = None,
           out_irs = IrsNote, out_liquidity_score = 1733885856537641 / 2251799813685248 \<rparr>
   \<and> (1733885856537641 / 2251799813685248 :: real) = fl (77 / 100)
   \<and> (1733885856537641 / 2251799813685248 :: real) \<noteq> fl (78 / 100)
   \<and> (1733885856537641 / 2251799813685248 :: real) < 78 / 100 - 1 / 200"
proof -
  have c: "hedge_proposal 100 0 0 (1 / 2) [] None 2 =
       Inr \<lparr> out_dv01_bond = 219891330989375 / 4398046511104, out_futures = None,
             out_irs = IrsNote, out_liquidity_score = fl (77 / 100) \<rparr>"
    using hedge_proposal_returns [OF dv01_half_year swap_leg_empty(1) swap_leg_empty(2), of None 2]
    by (simp add: futures_entry_def irs_hedge_def)
  show ?thesis
    using c unfolding fl_77 fl_78 by simp
qed
section \<open>The bootstrap: period points\<close>

lemma round_half_even_bounds:
  "\<lfloor>x\<rfloor> \<le> round_half_even x" "round_half_even x \<le> \<lfloor>x\<rfloor> + 1"
  by (simp_all add: round_half_even_def Let_def)


lemma round_half_even_of_int [simp]: "round_half_even (of_int n) = n"
  by (simp add: round_half_even_def)

lemma drop_duplicates_subset: "set (drop_duplicates ps) \<subseteq> set ps"
  by (induction ps rule: drop_duplicates.induct) auto

lemma drop_duplicates_keys: "fst ` set (drop_duplicates ps) = fst ` set ps"
proof (induction ps rule: drop_duplicates.induct)
  case 1
  then show ?case by simp
next
  case (2 p ps)
  have "fst ` set (p # ps) = insert (fst p) (fst ` set (filter (\<lambda>q. fst q \<noteq> fst p) ps))"
    by auto
  then show ?case
    using 2 by simp
qed

lemma drop_duplicates_distinct: "distinct (map fst (drop_duplicates ps))"
proof (induction ps rule: drop_duplicates.induct)
  case 1
  then show ?case by simp
next
  case (2 p ps)
  have "fst p \<notin> fst ` set (filter (\<lambda>q. fst q \<noteq> fst p) ps)"
    by auto
  then show ?case
    using 2 by (simp add: drop_duplicates_keys)
qed




lemma period_points_distinct: "distinct (map fst (period_points df freq))"
  by (simp add: period_points_def drop_duplicates_distinct)




text \<open>Every retained point is the period index of a valid row of the frame with that
  row's rate; every positive period index of a valid row is retained; and the rate kept
  for an index is that of its first row in ascending \<open>years\<close>.\<close>

lemma period_points_sources:
  "(N, v) \<in> set (period_points df freq) \<Longrightarrow>
     \<exists>y. (y, v) \<in> set (valid_rows df) \<and> N = round_half_even (y * of_int freq)"
  using drop_duplicates_subset [of "filter (\<lambda>(N, v). 0 < N) (indexed_rows df freq)"]
  by (auto simp: period_points_def indexed_rows_def sort_values_years_def)

lemma period_points_complete:
  assumes "(y, v) \<in> set (valid_rows df)" and "0 < round_half_even (y * of_int freq)"
  shows "round_half_even (y * of_int freq) \<in> fst ` set (period_points df freq)"
proof -
  have "(round_half_even (y * of_int freq), v) \<in>
      set (filter (\<lambda>(N, v). 0 < N) (indexed_rows df freq))"
    using assms by (force simp: indexed_rows_def sort_values_years_def)
  then show ?thesis
    unfolding period_points_def drop_duplicates_keys by force
qed



section \<open>The bootstrap: the loop and its table\<close>

lemma foldl_present:
  "foldl (\<lambda>s k. case DF k of None \<Rightarrow> s | Some v \<Rightarrow> s + w * v) a ks =
     a + (\<Sum>k\<leftarrow>ks. case DF k of None \<Rightarrow> 0 | Some v \<Rightarrow> w * v)"
  by (induction ks arbitrary: a) (auto simp: add.assoc split: option.splits)

lemma present_sum_list:
  "present_sum w DF N = (\<Sum>k\<leftarrow>[1 .. N - 1]. case DF k of None \<Rightarrow> 0 | Some v \<Rightarrow> w * v)"
  by (simp add: present_sum_def foldl_present)





lemma clamp_df_bounds: "1 / 10 ^ 12 \<le> clamp_df v" "clamp_df v \<le> 1"
  by (simp_all add: clamp_df_def)

lemma clamp_df_floor [simp]: "clamp_df (1 / 10 ^ 12) = 1 / 10 ^ 12"
  by (simp add: clamp_df_def)





text \<open>The state after each iteration is the state of the loop run on a prefix of the
  points; an invariant of \<open>solve\<close>'s results is an invariant of the table.\<close>

lemma bootstrap_loop_invariant:
  assumes "\<And>q N DF v. solve q DF N = Inr v \<Longrightarrow> P v"
    and "\<forall>v \<in> ran DF0. P v"
    and "bootstrap_loop solve freq cmode ps (DF0, rows0) = Inr (DF, rows)"
  shows "\<forall>v \<in> ran DF. P v"
  using assms(2,3)
proof (induction ps arbitrary: DF0 rows0)
  case Nil
  then show ?case by simp
next
  case (Cons p ps)
  obtain N q where p: "p = (N, q)"
    by (cases p)
  from Cons.prems(2) obtain v where v: "solve q DF0 N = Inr v"
    and run: "bootstrap_loop solve freq cmode ps
        (DF0(N \<mapsto> v), rows0 @ [(of_int N / of_int freq,
           zero_yield cmode v (of_int N / of_int freq) * 100)]) = Inr (DF, rows)"
    by (auto simp: p split: sum.splits)
  have "P v"
    using v by (rule assms(1))
  then have "\<forall>u \<in> ran (DF0(N \<mapsto> v)). P u"
    using Cons.prems(1) by (auto simp: ran_def split: if_splits)
  then show ?case
    using run by (rule Cons.IH)
qed

lemma bootstrap_loop_prefix:
  assumes "bootstrap_loop solve freq cmode ps st = Inr st'"
  shows "\<exists>st''. bootstrap_loop solve freq cmode (take n ps) st = Inr st''"
  using assms
proof (induction ps arbitrary: st n)
  case Nil
  then show ?case by simp
next
  case (Cons p ps)
  obtain N q DF rows where p: "p = (N, q)" and st: "st = (DF, rows)"
    by (cases p, cases st) auto
  show ?case
  proof (cases n)
    case 0
    then show ?thesis by simp
  next
    case (Suc m)
    from Cons.prems obtain v where v: "solve q DF N = Inr v"
      and run: "bootstrap_loop solve freq cmode ps
        (DF(N \<mapsto> v), rows @ [(of_int N / of_int freq,
           zero_yield cmode v (of_int N / of_int freq) * 100)]) = Inr st'"
      by (auto simp: p st split: sum.splits)
    from Cons.IH [OF run, of m] show ?thesis
      by (simp add: p st Suc v)
  qed
qed

section \<open>The bootstrap against the specification's equations\<close>






lemma bond_df_bounds: "bond_df freq y DF N = Inr v \<Longrightarrow> 1 / 10 ^ 12 \<le> v \<and> v \<le> 1"
  using clamp_df_bounds by (auto simp: bond_df_def Let_def split: if_splits)

lemma swap_df_bounds: "swap_df alpha q DF N = Inr v \<Longrightarrow> 1 / 10 ^ 12 \<le> v \<and> v \<le> 1"
  using clamp_df_bounds by (auto simp: swap_df_def Let_def split: if_splits)





section \<open>The bootstrap: the claims\<close>







text \<open>
  Claim C3 (bounds of the table).  After any number \<open>n\<close> of iterations of either loop
  over the points of any curve, every discount factor in the table lies in
  \<open>[1e-12, 1]\<close>; a run that returns has returned after each of its iterations; and the
  bond step stores exactly \<open>1e-12\<close> whenever its numerator \<open>100 - couponSum\<close> is at
  most \<open>1e-9\<close>.
\<close>

theorem discount_factor_bounds:
  "(bootstrap_loop (bond_df freq) freq cmode (take n (period_points df freq)) (Map.empty, [])
        = Inr (DF, rows) \<longrightarrow> ran DF \<subseteq> {1 / 10 ^ 12 .. 1})
   \<and> (bootstrap_loop (swap_df alpha) freq cmode (take n (period_points df freq)) (Map.empty, [])
        = Inr (DF', rows') \<longrightarrow> ran DF' \<subseteq> {1 / 10 ^ 12 .. 1})
   \<and> (bond_table df freq cmode = Inr st \<longrightarrow>
        (\<exists>st'. bootstrap_loop (bond_df freq) freq cmode (take n (period_points df freq))
            (Map.empty, []) = Inr st'))
   \<and> (swap_table df freq cmode = Inr st2 \<longrightarrow>
        (\<exists>st'. bootstrap_loop (swap_df (1 / of_int freq)) freq cmode
            (take n (period_points df freq)) (Map.empty, []) = Inr st'))
   \<and> (freq \<noteq> 0 \<longrightarrow> 100 - present_sum (y / 100 / of_int freq * 100) T N \<le> 1 / 10 ^ 9 \<longrightarrow>
        bond_df freq y T N = Inr (1 / 10 ^ 12))"
proof -
  have a: "ran DF \<subseteq> {1 / 10 ^ 12 .. 1}"
    if "bootstrap_loop (bond_df freq) freq cmode (take n (period_points df freq)) (Map.empty, [])
        = Inr (DF, rows)"
    using bootstrap_loop_invariant [of "bond_df freq" "\<lambda>v. 1 / 10 ^ 12 \<le> v \<and> v \<le> 1" Map.empty,
        OF _ _ that] bond_df_bounds by auto
  have b: "ran DF' \<subseteq> {1 / 10 ^ 12 .. 1}"
    if "bootstrap_loop (swap_df alpha) freq cmode (take n (period_points df freq)) (Map.empty, [])
        = Inr (DF', rows')"
    using bootstrap_loop_invariant [of "swap_df alpha" "\<lambda>v. 1 / 10 ^ 12 \<le> v \<and> v \<le> 1" Map.empty,
        OF _ _ that] swap_df_bounds by auto
  have c: "\<exists>st'. bootstrap_loop (bond_df freq) freq cmode (take n (period_points df freq))
            (Map.empty, []) = Inr st'" if "bond_table df freq cmode = Inr st"
    using that unfolding bond_table_def by (rule bootstrap_loop_prefix)
  have d: "\<exists>st'. bootstrap_loop (swap_df (1 / of_int freq)) freq cmode
            (take n (period_points df freq)) (Map.empty, []) = Inr st'"
    if "swap_table df freq cmode = Inr st2"
  proof -
    have "bootstrap_loop (swap_df (1 / of_int freq)) freq cmode (period_points df freq)
        (Map.empty, []) = Inr st2"
      using that by (simp add: swap_table_def split: if_splits)
    then show ?thesis
      by (rule bootstrap_loop_prefix)
  qed
  have e: "bond_df freq y T N = Inr (1 / 10 ^ 12)"
    if "freq \<noteq> 0" "100 - present_sum (y / 100 / of_int freq * 100) T N \<le> 1 / 10 ^ 9"
    using that clamp_df_floor by (simp add: bond_df_def Let_def)
  show ?thesis
    using a b c d e by blast
qed
section \<open>The bootstrap on concrete curves\<close>

lemma round_half_even_numeral [simp]:
  "round_half_even (numeral k) = numeral k" "round_half_even 1 = 1" "round_half_even 0 = 0"
  by (simp_all add: round_half_even_def)

lemma upto_1_1: "[1 .. 1] = [1::int]"
  using upto_rec1 [of 1 1] by simp

lemma present_sum_1 [simp]: "present_sum w DF 1 = 0"
  by (simp add: present_sum_def)

lemma present_sum_2: "present_sum w DF 2 = (case DF 1 of None \<Rightarrow> 0 | Some v \<Rightarrow> w * v)"
  by (simp add: present_sum_list upto_1_1)

lemma period_points_two:
  "period_points [\<lparr>years = Some 2, rate = Some a\<rparr>, \<lparr>years = Some 1, rate = Some b\<rparr>] 1 =
     [(1, b), (2, a)]"
  by (simp add: period_points_def indexed_rows_def sort_values_years_def valid_rows_def)


lemma clamp_df_inside: "1 / 10 ^ 12 \<le> v \<Longrightarrow> v \<le> 1 \<Longrightarrow> clamp_df v = v"
  by (simp add: clamp_df_def)

lemma clamp_df_above: "1 \<le> v \<Longrightarrow> clamp_df v = 1"
  by (simp add: clamp_df_def)

lemma clamp_df_below: "v \<le> 1 / 10 ^ 12 \<Longrightarrow> clamp_df v = 1 / 10 ^ 12"
  by (simp add: clamp_df_def)

lemma bond_df_first_5: "bond_df 1 5 DF 1 = Inr (20 / 21)"
  by (simp add: bond_df_def clamp_df_def)

lemma bond_df_second_4: "bond_df 1 4 (DF(1 \<mapsto> 20 / 21)) 2 = Inr (505 / 546)"
  by (simp add: bond_df_def present_sum_2 clamp_df_def)

lemma bond_table_two:
  "bond_table [\<lparr>years = Some 2, rate = Some 4\<rparr>, \<lparr>years = Some 1, rate = Some 5\<rparr>] 1 ''cont'' =
     Inr ([1 \<mapsto> 20 / 21, 2 \<mapsto> 505 / 546],
          [(1, zero_yield ''cont'' (20 / 21) 1 * 100),
           (2, zero_yield ''cont'' (505 / 546) 2 * 100)])"
  by (simp add: bond_table_def period_points_two bond_df_first_5 bond_df_second_4)

lemma swap_df_first_5: "swap_df 1 5 DF 1 = Inr (20 / 21)"
  by (simp add: swap_df_def clamp_df_def)

lemma swap_df_second_4: "swap_df 1 4 (DF(1 \<mapsto> 20 / 21)) 2 = Inr (505 / 546)"
  by (simp add: swap_df_def present_sum_2 clamp_df_def)

lemma swap_table_two:
  "swap_table [\<lparr>years = Some 2, rate = Some 4\<rparr>, \<lparr>years = Some 1, rate = Some 5\<rparr>] 1 ''cont'' =
     Inr ([1 \<mapsto> 20 / 21, 2 \<mapsto> 505 / 546],
          [(1, zero_yield ''cont'' (20 / 21) 1 * 100),
           (2, zero_yield ''cont'' (505 / 546) 2 * 100)])"
  by (simp add: swap_table_def period_points_two swap_df_first_5 swap_df_second_4)






theorem discount_factor_bounds_witness:
  "bootstrap_loop (bond_df 1) 1 ''cont''
       (take 1 (period_points
          [\<lparr>years = Some 2, rate = Some 4\<rparr>, \<lparr>years = Some 1, rate = Some 5\<rparr>] 1))
       (Map.empty, []) = Inr ([1 \<mapsto> 20 / 21], [(1, zero_yield ''cont'' (20 / 21) 1 * 100)])
   \<and> ran [(1::int) \<mapsto> (20 / 21 :: real)] \<subseteq> {1 / 10 ^ 12 .. 1}
   \<and> bootstrap_loop (swap_df 1) 1 ''cont''
       (take 1 (period_points
          [\<lparr>years = Some 2, rate = Some 4\<rparr>, \<lparr>years = Some 1, rate = Some 5\<rparr>] 1))
       (Map.empty, []) = Inr ([1 \<mapsto> 20 / 21], [(1, zero_yield ''cont'' (20 / 21) 1 * 100)])
   \<and> 100 - present_sum (200 / 100 / of_int 1 * 100) [1 \<mapsto> 1] 2 \<le> 1 / 10 ^ 9
   \<and> bond_df 1 200 [1 \<mapsto> 1] 2 = Inr (1 / 10 ^ 12)"
proof -
  let ?df = "[\<lparr>years = Some 2, rate = Some 4\<rparr>, \<lparr>years = Some 1, rate = Some 5\<rparr>]"
  let ?rows = "[(1::real, zero_yield ''cont'' (20 / 21) 1 * 100)]"
  have b: "bootstrap_loop (bond_df 1) 1 ''cont'' (take 1 (period_points ?df 1)) (Map.empty, [])
      = Inr ([1 \<mapsto> 20 / 21], ?rows)"
    by (simp add: period_points_two bond_df_first_5)
  have s: "bootstrap_loop (swap_df 1) 1 ''cont'' (take 1 (period_points ?df 1)) (Map.empty, [])
      = Inr ([1 \<mapsto> 20 / 21], ?rows)"
    by (simp add: period_points_two swap_df_first_5)
  have f: "(1::int) \<noteq> 0"
    by simp
  have n: "100 - present_sum (200 / 100 / of_int 1 * 100) [1 \<mapsto> 1] 2 \<le> 1 / 10 ^ 9"
    by (simp add: present_sum_2)
  note h = discount_factor_bounds [where freq = 1 and cmode = "''cont''" and n = 1 and df = ?df
      and DF = "[1 \<mapsto> 20 / 21]" and rows = ?rows and alpha = 1
      and DF' = "[1 \<mapsto> 20 / 21]" and rows' = ?rows and y = 200 and T = "[1 \<mapsto> 1]" and N = 2]
  from h b have r: "ran [(1::int) \<mapsto> (20 / 21 :: real)] \<subseteq> {1 / 10 ^ 12 .. 1}"
    by blast
  from h f n have e: "bond_df 1 200 [1 \<mapsto> 1] 2 = Inr (1 / 10 ^ 12)"
    by blast
  show ?thesis
    using b s r n e by blast
qed


section \<open>Monotone discount factors\<close>














section \<open>Cleaned curves and interpolation\<close>

lemma clean_curve_keys: "map fst (clean_curve df) = sort (remdups (map fst (valid_rows df)))"
proof -
  have "set (map fst (sort_values_years (valid_rows df))) = set (map fst (valid_rows df))"
    by (simp add: sort_values_years_def)
  then have "sort (remdups (map fst (sort_values_years (valid_rows df)))) =
      sort (remdups (map fst (valid_rows df)))"
    by (metis sorted_list_of_set_sort_remdups)
  then show ?thesis
    by (simp add: clean_curve_def Let_def comp_def)
qed

lemma clean_curve_strict: "sorted_wrt (<) (map fst (clean_curve df))"
  unfolding clean_curve_keys by (simp add: strict_sorted_iff)

lemma clean_curve_length: "length (clean_curve df) = length (remdups (map fst (valid_rows df)))"
  using arg_cong [OF clean_curve_keys, of length df] by simp

lemma sort_key_strict_id:
  assumes "sorted_wrt (<) (map f xs)"
  shows "sort_key f xs = xs"
proof -
  have "sorted (map f xs)"
    using assms strict_sorted_iff by blast
  then show ?thesis
    by (rule sort_key_id_if_sorted)
qed

lemma interp_from_head:
  assumes "sorted_wrt (<) (map fst ((x0, y0) # knots))"
  shows "interp_from x0 ((x0, y0) # knots) = y0"
proof (cases knots)
  case Nil
  then show ?thesis by simp
next
  case (Cons p ps)
  then show ?thesis
    using assms by (cases p) auto
qed

lemma keys_head_le:
  fixes knots :: "(real \<times> real) list"
  assumes "sorted_wrt (<) (map fst knots)" and "j < length knots"
  shows "fst (hd knots) \<le> fst (knots ! j)"
proof -
  have "sorted (map fst knots)"
    using assms(1) strict_sorted_iff by blast
  then have "map fst knots ! 0 \<le> map fst knots ! j"
    using assms(2) by (intro sorted_nth_mono) simp_all
  moreover have "map fst knots ! j = fst (knots ! j)"
    using assms(2) by (rule nth_map)
  moreover have "map fst knots ! 0 = fst (hd knots)"
    using assms(2) by (cases knots) simp_all
  ultimately show ?thesis
    by simp
qed

lemma keys_le_last:
  fixes knots :: "(real \<times> real) list"
  assumes "sorted_wrt (<) (map fst knots)" and "j < length knots"
  shows "fst (knots ! j) \<le> fst (last knots)"
proof -
  have "sorted (map fst knots)"
    using assms(1) strict_sorted_iff by blast
  then have "map fst knots ! j \<le> map fst knots ! (length knots - 1)"
    using assms(2) by (intro sorted_nth_mono) simp_all
  moreover have "map fst knots ! j = fst (knots ! j)"
    using assms(2) by (rule nth_map)
  moreover have "map fst knots ! (length knots - 1) = fst (last knots)"
    using assms(2) by (cases knots rule: rev_cases) (simp_all add: nth_append)
  ultimately show ?thesis
    by simp
qed

lemma interp_from_last:
  assumes "sorted_wrt (<) (map fst knots)" and "knots \<noteq> []" and "x = fst (last knots)"
  shows "interp_from x knots = snd (last knots)"
  using assms
proof (induction x knots rule: interp_from.induct)
  case (1 x)
  then show ?case by simp
next
  case (2 x x0 y0)
  then show ?case by simp
next
  case (3 x x0 y0 x1 y1 knots)
  have tail: "sorted_wrt (<) (map fst ((x1, y1) # knots))"
    using 3(2) by simp
  have "fst (((x1, y1) # knots) ! 0) \<le> fst (last ((x1, y1) # knots))"
    using tail by (intro keys_le_last) simp_all
  then have nlt: "\<not> x < x1"
    using 3(4) by simp
  have "interp_from x ((x1, y1) # knots) = snd (last ((x1, y1) # knots))"
    using 3(4) by (intro 3(1) [OF nlt tail]) simp_all
  then show ?case
    using nlt by simp
qed

lemma interp_from_segment:
  assumes "sorted_wrt (<) (map fst knots)" and "Suc i < length knots"
    and "fst (knots ! i) \<le> x" and "x \<le> fst (knots ! Suc i)"
  shows "interp_from x knots =
      (snd (knots ! Suc i) - snd (knots ! i)) / (fst (knots ! Suc i) - fst (knots ! i))
        * (x - fst (knots ! i)) + snd (knots ! i)"
  using assms
proof (induction x knots arbitrary: i rule: interp_from.induct)
  case (1 x)
  then show ?case by simp
next
  case (2 x x0 y0)
  then show ?case by simp
next
  case (3 x x0 y0 x1 y1 knots)
  have x01: "x0 < x1"
    using 3(2) by simp
  have tail: "sorted_wrt (<) (map fst ((x1, y1) # knots))"
    using 3(2) by simp
  show ?case
  proof (cases i)
    case 0
    then have r: "x0 \<le> x" "x \<le> x1"
      using 3(4,5) by simp_all
    show ?thesis
    proof (cases "x < x1")
      case True
      then show ?thesis
        using 0 by simp
    next
      case False
      then have "x = x1"
        using r by simp
      then have "interp_from x ((x0, y0) # (x1, y1) # knots) = y1"
        using interp_from_head [OF tail] by simp
      moreover have "(y1 - y0) / (x1 - x0) * (x1 - x0) + y0 = y1"
        using x01 by simp
      ultimately show ?thesis
        using 0 \<open>x = x1\<close> by simp
    qed
  next
    case (Suc j)
    have "fst (hd ((x1, y1) # knots)) \<le> fst (((x1, y1) # knots) ! j)"
      using tail 3(3) Suc by (intro keys_head_le) simp_all
    then have nlt: "\<not> x < x1"
      using 3(4) Suc by simp
    have "interp_from x ((x1, y1) # knots) =
        (snd (((x1, y1) # knots) ! Suc j) - snd (((x1, y1) # knots) ! j))
          / (fst (((x1, y1) # knots) ! Suc j) - fst (((x1, y1) # knots) ! j))
          * (x - fst (((x1, y1) # knots) ! j)) + snd (((x1, y1) # knots) ! j)"
      using 3(3,4,5) Suc by (intro 3(1) [OF nlt tail]) simp_all
    then show ?thesis
      using nlt Suc by simp
  qed
qed

lemma np_interp_left:
  assumes "sorted_wrt (<) (map fst knots)" and "knots \<noteq> []" and "x \<le> fst (hd knots)"
  shows "np_interp x knots = snd (hd knots)"
proof -
  have "fst (hd knots) \<le> fst (last knots)"
    using keys_le_last [OF assms(1), of 0] assms(2) by (simp add: hd_conv_nth)
  then have nl: "\<not> fst (last knots) < x"
    using assms(3) by simp
  show ?thesis
  proof (cases "x < fst (hd knots)")
    case True
    then show ?thesis
      using nl by (simp add: np_interp_def)
  next
    case False
    then have x: "x = fst (hd knots)"
      using assms(3) by simp
    obtain x0 y0 rest where k: "knots = (x0, y0) # rest"
      using assms(2) by (cases knots) auto
    have "interp_from x0 ((x0, y0) # rest) = y0"
      using assms(1) unfolding k by (rule interp_from_head)
    then show ?thesis
      using nl False x by (simp add: np_interp_def k)
  qed
qed

lemma np_interp_right:
  assumes "sorted_wrt (<) (map fst knots)" and "knots \<noteq> []" and "fst (last knots) \<le> x"
  shows "np_interp x knots = snd (last knots)"
proof (cases "fst (last knots) < x")
  case True
  then show ?thesis
    by (simp add: np_interp_def)
next
  case False
  then have x: "x = fst (last knots)"
    using assms(3) by simp
  have "fst (hd knots) \<le> fst (last knots)"
    using keys_le_last [OF assms(1), of 0] assms(2) by (simp add: hd_conv_nth)
  then have "\<not> x < fst (hd knots)"
    using x by simp
  moreover have "interp_from x knots = snd (last knots)"
    using assms(1,2) x by (rule interp_from_last)
  ultimately show ?thesis
    using False by (simp add: np_interp_def)
qed

lemma np_interp_segment:
  assumes "sorted_wrt (<) (map fst knots)" and "Suc i < length knots"
    and "fst (knots ! i) \<le> x" and "x \<le> fst (knots ! Suc i)"
  shows "np_interp x knots =
      (snd (knots ! Suc i) - snd (knots ! i)) / (fst (knots ! Suc i) - fst (knots ! i))
        * (x - fst (knots ! i)) + snd (knots ! i)"
proof -
  have "fst (knots ! Suc i) \<le> fst (last knots)"
    using assms(1,2) by (rule keys_le_last)
  then have a: "\<not> fst (last knots) < x"
    using assms(4) by simp
  have "fst (hd knots) \<le> fst (knots ! i)"
    using assms(1,2) by (intro keys_head_le) simp_all
  then have b: "\<not> x < fst (hd knots)"
    using assms(3) by simp
  show ?thesis
    using a b interp_from_segment [OF assms] by (simp add: np_interp_def)
qed

lemma map_fst_keyed: "map fst (map (\<lambda>(x, v). (x, g x v)) xs) = map fst xs"
  by (induction xs) auto

lemma asw_spread_rows:
  assumes "2 \<le> length (clean_curve df_swaps)"
  shows "asw_spread df_bonds df_swaps =
      map (\<lambda>(x, bond). (x, (bond - np_interp x (clean_curve df_swaps)) * 100))
        (clean_curve df_bonds)"
proof -
  let ?rows = "map (\<lambda>(x, bond). (x, (bond - np_interp x (clean_curve df_swaps)) * 100))
      (clean_curve df_bonds)"
  have "sorted_wrt (<) (map fst ?rows)"
    unfolding map_fst_keyed by (rule clean_curve_strict)
  then have "sort_key fst ?rows = ?rows"
    by (rule sort_key_strict_id)
  then show ?thesis
    using assms by (auto simp: asw_spread_def Let_def)
qed

text \<open>
  Claim C6 (asset-swap spread).  For a swap curve with at least two cleaned points, the
  spread table has exactly one row per bond maturity (the distinct \<open>years\<close> of the valid
  bond rows, ascending) with \<open>spreadBp = (bond rate - interpolated swap rate) * 100\<close>;
  the interpolated swap rate is the first swap rate at or below the first swap maturity,
  the last one at or above the last maturity, and linear between two adjacent swap
  maturities.  If every bond rate exceeds the interpolated swap rate, every spread is
  strictly positive.
\<close>

theorem asw_spread_interpolates:
  "2 \<le> length (clean_curve df_swaps) \<Longrightarrow>
     asw_spread df_bonds df_swaps =
       map (\<lambda>(x, bond). (x, (bond - np_interp x (clean_curve df_swaps)) * 100))
         (clean_curve df_bonds)
   \<and> map fst (asw_spread df_bonds df_swaps) = sort (remdups (map fst (valid_rows df_bonds)))
   \<and> (\<forall>x. x \<le> fst (hd (clean_curve df_swaps)) \<longrightarrow>
          np_interp x (clean_curve df_swaps) = snd (hd (clean_curve df_swaps)))
   \<and> (\<forall>x. fst (last (clean_curve df_swaps)) \<le> x \<longrightarrow>
          np_interp x (clean_curve df_swaps) = snd (last (clean_curve df_swaps)))
   \<and> (\<forall>i x. Suc i < length (clean_curve df_swaps)
          \<and> fst (clean_curve df_swaps ! i) \<le> x \<and> x \<le> fst (clean_curve df_swaps ! Suc i) \<longrightarrow>
          np_interp x (clean_curve df_swaps) =
            (snd (clean_curve df_swaps ! Suc i) - snd (clean_curve df_swaps ! i))
              / (fst (clean_curve df_swaps ! Suc i) - fst (clean_curve df_swaps ! i))
              * (x - fst (clean_curve df_swaps ! i)) + snd (clean_curve df_swaps ! i))
   \<and> ((\<forall>(x, bond) \<in> set (clean_curve df_bonds). np_interp x (clean_curve df_swaps) < bond) \<longrightarrow>
        (\<forall>(x, spread_bp) \<in> set (asw_spread df_bonds df_swaps). 0 < spread_bp))"
proof -
  assume len: "2 \<le> length (clean_curve df_swaps)"
  let ?b = "clean_curve df_swaps"
  have strict: "sorted_wrt (<) (map fst ?b)"
    by (rule clean_curve_strict)
  have ne: "?b \<noteq> []"
    using len by auto
  note rows = asw_spread_rows [OF len, of df_bonds]
  have keys: "map fst (asw_spread df_bonds df_swaps) = sort (remdups (map fst (valid_rows df_bonds)))"
  proof -
    have "map fst (asw_spread df_bonds df_swaps) = map fst (clean_curve df_bonds)"
      unfolding rows by (rule map_fst_keyed)
    then show ?thesis
      by (simp only: clean_curve_keys)
  qed
  have left: "\<forall>x. x \<le> fst (hd ?b) \<longrightarrow> np_interp x ?b = snd (hd ?b)"
    using np_interp_left [OF strict ne] by blast
  have right: "\<forall>x. fst (last ?b) \<le> x \<longrightarrow> np_interp x ?b = snd (last ?b)"
    using np_interp_right [OF strict ne] by blast
  have seg: "\<forall>i x. Suc i < length ?b \<and> fst (?b ! i) \<le> x \<and> x \<le> fst (?b ! Suc i) \<longrightarrow>
      np_interp x ?b = (snd (?b ! Suc i) - snd (?b ! i)) / (fst (?b ! Suc i) - fst (?b ! i))
        * (x - fst (?b ! i)) + snd (?b ! i)"
    using np_interp_segment [OF strict] by blast
  have sign: "(\<forall>(x, bond) \<in> set (clean_curve df_bonds). np_interp x ?b < bond) \<longrightarrow>
      (\<forall>(x, spread_bp) \<in> set (asw_spread df_bonds df_swaps). 0 < spread_bp)"
    unfolding rows by auto
  show ?thesis
    by (intro conjI rows keys left right seg sign)
qed

lemma mean_single [simp]: "mean [v] = v"
  by (simp add: mean_def)

lemma clean_curve_three:
  assumes "x < y" and "y < z"
  shows "clean_curve [\<lparr>years = Some x, rate = Some a\<rparr>, \<lparr>years = Some y, rate = Some b\<rparr>,
      \<lparr>years = Some z, rate = Some c\<rparr>] = [(x, a), (y, b), (z, c)]"
  using assms by (simp add: clean_curve_def valid_rows_def sort_values_years_def)

theorem asw_spread_interpolates_witness:
  "2 \<le> length (clean_curve [\<lparr>years = Some 1, rate = Some 2\<rparr>, \<lparr>years = Some 3, rate = Some 3\<rparr>,
        \<lparr>years = Some 10, rate = Some (5 / 2)\<rparr>])
   \<and> asw_spread
        [\<lparr>years = Some 2, rate = Some 3\<rparr>, \<lparr>years = Some 5, rate = Some 4\<rparr>,
         \<lparr>years = Some 12, rate = Some 5\<rparr>]
        [\<lparr>years = Some 1, rate = Some 2\<rparr>, \<lparr>years = Some 3, rate = Some 3\<rparr>,
         \<lparr>years = Some 10, rate = Some (5 / 2)\<rparr>]
       = [(2, 50), (5, 800 / 7), (12, 250)]
   \<and> np_interp 2 [(1, 2), (3, 3), (10, 5 / 2)] = 5 / 2
   \<and> np_interp 5 [(1, 2), (3, 3), (10, 5 / 2)] = 20 / 7
   \<and> np_interp 12 [(1, 2), (3, 3), (10, 5 / 2)] = 5 / 2"
proof -
  let ?dfb = "[\<lparr>years = Some 2, rate = Some 3\<rparr>, \<lparr>years = Some 5, rate = Some 4\<rparr>,
         \<lparr>years = Some 12, rate = Some 5\<rparr>]"
  let ?dfs = "[\<lparr>years = Some 1, rate = Some 2\<rparr>, \<lparr>years = Some 3, rate = Some 3\<rparr>,
         \<lparr>years = Some 10, rate = Some (5 / 2)\<rparr>]"
  let ?b = "[(1, 2), (3, 3), (10, 5 / 2)] :: (real \<times> real) list"
  have a: "clean_curve ?dfb = [(2, 3), (5, 4), (12, 5)]"
    by (rule clean_curve_three) simp_all
  have b: "clean_curve ?dfs = ?b"
    by (rule clean_curve_three) simp_all
  have len: "2 \<le> length (clean_curve ?dfs)"
    by (simp add: b)
  note h = asw_spread_interpolates [OF len, of ?dfb, unfolded a b]
  from h have rows: "asw_spread ?dfb ?dfs =
      map (\<lambda>(x, bond). (x, (bond - np_interp x ?b) * 100)) [(2, 3), (5, 4), (12, 5)]"
    by (rule conjunct1)
  from h have seg: "\<forall>i x. Suc i < length ?b \<and> fst (?b ! i) \<le> x \<and> x \<le> fst (?b ! Suc i) \<longrightarrow>
      np_interp x ?b = (snd (?b ! Suc i) - snd (?b ! i)) / (fst (?b ! Suc i) - fst (?b ! i))
        * (x - fst (?b ! i)) + snd (?b ! i)"
    by blast
  from h have right: "\<forall>x. fst (last ?b) \<le> x \<longrightarrow> np_interp x ?b = snd (last ?b)"
    by blast
  have i2: "np_interp 2 ?b = 5 / 2"
    using seg [rule_format, of 0 2] by simp
  have i5: "np_interp 5 ?b = 20 / 7"
    using seg [rule_format, of 1 5] by simp
  have i12: "np_interp 12 ?b = 5 / 2"
    using right [rule_format, of 12] by simp
  have "asw_spread ?dfb ?dfs = [(2, 50), (5, 800 / 7), (12, 250)]"
    unfolding rows by (simp add: i2 i5 i12)
  then show ?thesis
    using len i2 i5 i12 by blast
qed
section \<open>Alignment: exact join and nearest fallback\<close>

lemma exact_join_iff:
  "(x, y, r) \<in> set (exact_join a b) \<longleftrightarrow> (x, y) \<in> set a \<and> (x, r) \<in> set b"
  by (force simp: exact_join_def)

lemma fallback_threshold_truncates:
  "fallback_threshold a b = max 2 ((3 * int (min (length a) (length b))) div 10)"
proof -
  have "(3 / 10) * real n = real_of_int (3 * int n) / real_of_int 10" for n
    by simp
  then have "\<lfloor>(3 / 10) * real n\<rfloor> = (3 * int n) div 10" for n
    by (simp only: floor_divide_of_int_eq)
  then show ?thesis
    by (simp only: fallback_threshold_def)
qed

lemma needs_fallback_iff:
  "needs_fallback a b m \<longleftrightarrow>
     int (length m) < max 2 ((3 * int (min (length a) (length b))) div 10)"
  unfolding needs_fallback_def fallback_threshold_truncates by auto

lemma merge_asof_nearest_iff:
  "(x, y, r) \<in> set (merge_asof_nearest a b tol) \<longleftrightarrow>
     (x, y) \<in> set a \<and> (\<exists>k. nearest_match tol x b = Some (k, r))"
proof
  assume "(x, y, r) \<in> set (merge_asof_nearest a b tol)"
  then show "(x, y) \<in> set a \<and> (\<exists>k. nearest_match tol x b = Some (k, r))"
    by (auto simp: merge_asof_nearest_def split: option.splits) metis
next
  assume "(x, y) \<in> set a \<and> (\<exists>k. nearest_match tol x b = Some (k, r))"
  then show "(x, y, r) \<in> set (merge_asof_nearest a b tol)"
    by (force simp: merge_asof_nearest_def)
qed

lemma filter_keys_strict:
  fixes b :: "(real \<times> real) list"
  assumes "sorted_wrt (<) (map fst b)"
  shows "sorted_wrt (<) (map fst (filter P b))"
  using assms unfolding sorted_wrt_map by (rule sorted_wrt_filter)

lemma backward_match_Some:
  assumes "sorted_wrt (<) (map fst b)" and "backward_match tol x b = Some p"
  shows "p \<in> set b \<and> fst p \<le> x \<and> x - fst p \<le> tol
       \<and> (\<forall>q \<in> set b. fst q \<le> x \<longrightarrow> fst q \<le> fst p)"
proof -
  let ?B = "filter (\<lambda>(k, r). k \<le> x) b"
  from assms(2) have ne: "?B \<noteq> []" and p: "p = last ?B" and tol: "\<not> tol < x - fst (last ?B)"
    by (auto simp: backward_match_def split: list.splits if_splits)
  have mem: "p \<in> set ?B"
    unfolding p using ne by (rule last_in_set)
  have strict: "sorted_wrt (<) (map fst ?B)"
    using assms(1) by (rule filter_keys_strict)
  have "fst q \<le> fst p" if "q \<in> set b" "fst q \<le> x" for q
  proof -
    have "q \<in> set ?B"
      using that by (auto simp: case_prod_unfold)
    then obtain j where "j < length ?B" "?B ! j = q"
      by (metis in_set_conv_nth)
    then show ?thesis
      using keys_le_last [OF strict, of j] p by simp
  qed
  then show ?thesis
    using mem tol p by (auto simp: case_prod_unfold)
qed

lemma backward_match_None:
  assumes "sorted_wrt (<) (map fst b)" and "backward_match tol x b = None"
    and "q \<in> set b" and "fst q \<le> x"
  shows "tol < x - fst q"
proof -
  let ?B = "filter (\<lambda>(k, r). k \<le> x) b"
  have q: "q \<in> set ?B"
    using assms(3,4) by (auto simp: case_prod_unfold)
  have ne: "?B \<noteq> []"
  proof
    assume e: "?B = []"
    show False
      using q unfolding e by simp
  qed
  have tol: "tol < x - fst (last ?B)"
    using ne assms(2) by (auto simp: backward_match_def split: list.splits if_splits)
  have strict: "sorted_wrt (<) (map fst ?B)"
    using assms(1) by (rule filter_keys_strict)
  obtain j where "j < length ?B" "?B ! j = q"
    using q by (metis in_set_conv_nth)
  then have "fst q \<le> fst (last ?B)"
    using keys_le_last [OF strict, of j] by simp
  then show ?thesis
    using tol by linarith
qed

lemma forward_match_Some:
  assumes "sorted_wrt (<) (map fst b)" and "forward_match tol x b = Some p"
  shows "p \<in> set b \<and> x \<le> fst p \<and> fst p - x \<le> tol
       \<and> (\<forall>q \<in> set b. x \<le> fst q \<longrightarrow> fst p \<le> fst q)"
proof -
  let ?F = "filter (\<lambda>(k, r). x \<le> k) b"
  from assms(2) have ne: "?F \<noteq> []" and p: "p = hd ?F" and tol: "\<not> tol < fst (hd ?F) - x"
    by (auto simp: forward_match_def split: list.splits if_splits)
  have mem: "p \<in> set ?F"
    unfolding p using ne by (rule hd_in_set)
  have strict: "sorted_wrt (<) (map fst ?F)"
    using assms(1) by (rule filter_keys_strict)
  have "fst p \<le> fst q" if "q \<in> set b" "x \<le> fst q" for q
  proof -
    have "q \<in> set ?F"
      using that by (auto simp: case_prod_unfold)
    then obtain j where "j < length ?F" "?F ! j = q"
      by (metis in_set_conv_nth)
    then show ?thesis
      using keys_head_le [OF strict, of j] p by simp
  qed
  then show ?thesis
    using mem tol p by (auto simp: case_prod_unfold)
qed

lemma forward_match_None:
  assumes "sorted_wrt (<) (map fst b)" and "forward_match tol x b = None"
    and "q \<in> set b" and "x \<le> fst q"
  shows "tol < fst q - x"
proof -
  let ?F = "filter (\<lambda>(k, r). x \<le> k) b"
  have q: "q \<in> set ?F"
    using assms(3,4) by (auto simp: case_prod_unfold)
  have ne: "?F \<noteq> []"
  proof
    assume e: "?F = []"
    show False
      using q unfolding e by simp
  qed
  have tol: "tol < fst (hd ?F) - x"
    using ne assms(2) by (auto simp: forward_match_def split: list.splits if_splits)
  have strict: "sorted_wrt (<) (map fst ?F)"
    using assms(1) by (rule filter_keys_strict)
  obtain j where "j < length ?F" "?F ! j = q"
    using q by (metis in_set_conv_nth)
  then have "fst (hd ?F) \<le> fst q"
    using keys_head_le [OF strict, of j] by simp
  then show ?thesis
    using tol by linarith
qed

text \<open>The nearest match is a reference row within the tolerance that no reference row
  is nearer than, the one of smaller \<open>years\<close> of two equally near; there is none exactly
  when every reference row is farther than the tolerance.\<close>

lemma nearest_match_Some:
  assumes b: "sorted_wrt (<) (map fst b)" and m: "nearest_match tol x b = Some p"
  shows "p \<in> set b \<and> \<bar>x - fst p\<bar> \<le> tol
       \<and> (\<forall>q \<in> set b. \<bar>x - fst p\<bar> \<le> \<bar>x - fst q\<bar>
             \<and> (\<bar>x - fst q\<bar> = \<bar>x - fst p\<bar> \<longrightarrow> fst p \<le> fst q))"
proof (cases "backward_match tol x b")
  case None
  then have fw: "forward_match tol x b = Some p"
    using m by (simp add: nearest_match_def)
  note f = forward_match_Some [OF b fw]
  have "\<bar>x - fst p\<bar> \<le> \<bar>x - fst q\<bar> \<and> (\<bar>x - fst q\<bar> = \<bar>x - fst p\<bar> \<longrightarrow> fst p \<le> fst q)"
    if q: "q \<in> set b" for q
  proof (cases "x \<le> fst q")
    case True
    then have "fst p \<le> fst q"
      using f q by blast
    then show ?thesis
      using f True by auto
  next
    case False
    then have "tol < x - fst q"
      using backward_match_None [OF b None q] by simp
    then show ?thesis
      using f False by auto
  qed
  then show ?thesis
    using f by auto
next
  case (Some bw)
  note bk = backward_match_Some [OF b Some]
  show ?thesis
  proof (cases "forward_match tol x b")
    case None
    then have p: "p = bw"
      using m Some by (simp add: nearest_match_def)
    have "\<bar>x - fst p\<bar> \<le> \<bar>x - fst q\<bar> \<and> (\<bar>x - fst q\<bar> = \<bar>x - fst p\<bar> \<longrightarrow> fst p \<le> fst q)"
      if q: "q \<in> set b" for q
    proof (cases "fst q \<le> x")
      case True
      then have "fst q \<le> fst p"
        using bk q p by blast
      then show ?thesis
        using bk True p by auto
    next
      case False
      then have "tol < fst q - x"
        using forward_match_None [OF b None q] by simp
      then show ?thesis
        using bk False p by auto
    qed
    then show ?thesis
      using bk p by auto
  next
    case (Some fw)
    note fk = forward_match_Some [OF b Some]
    have "(if x - fst bw \<le> fst fw - x then Some bw else Some fw) = Some p"
      using m unfolding nearest_match_def \<open>backward_match tol x b = Some bw\<close> Some
      by (simp only: prod.case option.case)
    then have p: "p = (if x - fst bw \<le> fst fw - x then bw else fw)"
      by (cases "x - fst bw \<le> fst fw - x") simp_all
    have "\<bar>x - fst p\<bar> \<le> \<bar>x - fst q\<bar> \<and> (\<bar>x - fst q\<bar> = \<bar>x - fst p\<bar> \<longrightarrow> fst p \<le> fst q)"
      if q: "q \<in> set b" for q
    proof (cases "fst q \<le> x")
      case True
      then have "fst q \<le> fst bw"
        using bk q by blast
      then show ?thesis
        using bk fk True p by (auto split: if_splits)
    next
      case False
      then have "fst fw \<le> fst q"
        using fk q by auto
      then show ?thesis
        using bk fk False p by (auto split: if_splits)
    qed
    then show ?thesis
      using bk fk p by (auto split: if_splits)
  qed
qed

lemma nearest_match_None:
  assumes b: "sorted_wrt (<) (map fst b)" and m: "nearest_match tol x b = None"
    and q: "q \<in> set b"
  shows "tol < \<bar>x - fst q\<bar>"
proof -
  have bw: "backward_match tol x b = None" and fw: "forward_match tol x b = None"
    using m by (auto simp: nearest_match_def split: option.splits if_splits)
  show ?thesis
  proof (cases "fst q \<le> x")
    case True
    then show ?thesis
      using backward_match_None [OF b bw q] by simp
  next
    case False
    then show ?thesis
      using forward_match_None [OF b fw q] by simp
  qed
qed

lemma nearest_example_wide:
  "merge_asof_nearest [(2, y1), (5, y2), (10, y3)]
       [(205 / 100, r1), (51 / 10, r2), (99 / 10, r3)] (15 / 100) =
     [(2, y1, r1), (5, y2, r2), (10, y3, r3)]"
  by (simp add: merge_asof_nearest_def nearest_match_def backward_match_def forward_match_def)

lemma nearest_example_tight:
  "merge_asof_nearest [(2, y1), (5, y2), (10, y3)]
       [(205 / 100, r1), (51 / 10, r2), (99 / 10, r3)] (2 / 100) = []"
  by (simp add: merge_asof_nearest_def nearest_match_def backward_match_def forward_match_def)

lemma aligned_example_wide:
  "aligned_rows [(2, y1), (5, y2), (10, y3)]
       [(205 / 100, r1), (51 / 10, r2), (99 / 10, r3)] (15 / 100) =
     Inr [(2, y1, r1), (5, y2, r2), (10, y3, r3)]"
  unfolding aligned_rows_def Let_def nearest_example_wide
  by (simp add: needs_fallback_def exact_join_def)

lemma aligned_example_tight:
  "aligned_rows [(2, y1), (5, y2), (10, y3)]
       [(205 / 100, r1), (51 / 10, r2), (99 / 10, r3)] (2 / 100) = Inr []"
  unfolding aligned_rows_def Let_def nearest_example_tight
  by (simp add: needs_fallback_def exact_join_def)

lemma add_spread_example_wide:
  "add_spread_vs_ref_par
       [\<lparr>years = Some 2, rate = Some y1\<rparr>, \<lparr>years = Some 5, rate = Some y2\<rparr>,
        \<lparr>years = Some 10, rate = Some y3\<rparr>]
       [\<lparr>years = Some (205 / 100), rate = Some r1\<rparr>, \<lparr>years = Some (51 / 10), rate = Some r2\<rparr>,
        \<lparr>years = Some (99 / 10), rate = Some r3\<rparr>] (15 / 100) =
     Inr [(2, (y1 - r1) * 100), (5, (y2 - r2) * 100), (10, (y3 - r3) * 100)]"
proof -
  have a: "clean_curve [\<lparr>years = Some 2, rate = Some y1\<rparr>, \<lparr>years = Some 5, rate = Some y2\<rparr>,
        \<lparr>years = Some 10, rate = Some y3\<rparr>] = [(2, y1), (5, y2), (10, y3)]"
    by (rule clean_curve_three) simp_all
  have b: "clean_curve [\<lparr>years = Some (205 / 100), rate = Some r1\<rparr>,
        \<lparr>years = Some (51 / 10), rate = Some r2\<rparr>, \<lparr>years = Some (99 / 10), rate = Some r3\<rparr>] =
      [(205 / 100, r1), (51 / 10, r2), (99 / 10, r3)]"
    by (rule clean_curve_three) simp_all
  show ?thesis
    unfolding add_spread_vs_ref_par_def Let_def a b aligned_example_wide by simp
qed

lemma add_spread_example_tight:
  "add_spread_vs_ref_par
       [\<lparr>years = Some 2, rate = Some y1\<rparr>, \<lparr>years = Some 5, rate = Some y2\<rparr>,
        \<lparr>years = Some 10, rate = Some y3\<rparr>]
       [\<lparr>years = Some (205 / 100), rate = Some r1\<rparr>, \<lparr>years = Some (51 / 10), rate = Some r2\<rparr>,
        \<lparr>years = Some (99 / 10), rate = Some r3\<rparr>] (2 / 100) = Inr []"
proof -
  have a: "clean_curve [\<lparr>years = Some 2, rate = Some y1\<rparr>, \<lparr>years = Some 5, rate = Some y2\<rparr>,
        \<lparr>years = Some 10, rate = Some y3\<rparr>] = [(2, y1), (5, y2), (10, y3)]"
    by (rule clean_curve_three) simp_all
  have b: "clean_curve [\<lparr>years = Some (205 / 100), rate = Some r1\<rparr>,
        \<lparr>years = Some (51 / 10), rate = Some r2\<rparr>, \<lparr>years = Some (99 / 10), rate = Some r3\<rparr>] =
      [(205 / 100, r1), (51 / 10, r2), (99 / 10, r3)]"
    by (rule clean_curve_three) simp_all
  show ?thesis
    unfolding add_spread_vs_ref_par_def Let_def a b aligned_example_tight by simp
qed

lemma add_spread_unrounded:
  "add_spread_vs_ref_par
       [\<lparr>years = Some 1, rate = Some 3\<rparr>, \<lparr>years = Some 2, rate = Some 3\<rparr>,
        \<lparr>years = Some (30000001 / 10000000), rate = Some 3\<rparr>]
       [\<lparr>years = Some 1, rate = Some 2\<rparr>, \<lparr>years = Some 2, rate = Some 2\<rparr>,
        \<lparr>years = Some 3, rate = Some 2\<rparr>] (15 / 100) =
     Inr [(1, 100), (2, 100)]"
proof -
  have a: "clean_curve [\<lparr>years = Some 1, rate = Some 3\<rparr>, \<lparr>years = Some 2, rate = Some 3\<rparr>,
        \<lparr>years = Some (30000001 / 10000000), rate = Some 3\<rparr>] =
      [(1, 3), (2, 3), (30000001 / 10000000, 3)]"
    by (rule clean_curve_three) simp_all
  have b: "clean_curve [\<lparr>years = Some 1, rate = Some 2\<rparr>, \<lparr>years = Some 2, rate = Some 2\<rparr>,
        \<lparr>years = Some 3, rate = Some 2\<rparr>] = [(1, 2), (2, 2), (3, 2)]"
    by (rule clean_curve_three) simp_all
  have m: "aligned_rows [(1, 3), (2, 3), (30000001 / 10000000, 3)] [(1, 2), (2, 2), (3, 2)]
      (15 / 100) = Inr [(1, 3, 2), (2, 3, 2)]"
    by (simp add: aligned_rows_def needs_fallback_def fallback_threshold_def exact_join_def)
  show ?thesis
    unfolding add_spread_vs_ref_par_def Let_def a b m by simp
qed

lemma seven_points:
  "aligned_rows
       [(1, 3), (2, 3), (305 / 100, 3), (405 / 100, 3), (505 / 100, 3), (605 / 100, 3), (705 / 100, 3)]
       [(1, 2), (2, 2), (3, 2), (4, 2), (5, 2), (6, 2), (7, 2)] (15 / 100) =
     Inr [(1, 3, 2), (2, 3, 2)]"
  by (simp add: aligned_rows_def needs_fallback_def fallback_threshold_def exact_join_def)

lemma distinct_filter_key:
  assumes "distinct (map fst ps)" and "p \<in> set ps"
  shows "filter (\<lambda>r. fst r = fst p) ps = [p]"
  using assms
proof (induction ps)
  case Nil
  then show ?case by simp
next
  case (Cons q ps)
  have fresh: "fst q \<notin> fst ` set ps"
    using Cons.prems(1) by simp
  show ?case
  proof (cases "p = q")
    case True
    have "fst r \<noteq> fst q" if "r \<in> set ps" for r
      using fresh that by (metis imageI)
    then have "filter (\<lambda>r. fst r = fst q) ps = []"
      unfolding filter_empty_conv by blast
    then show ?thesis
      using True by simp
  next
    case False
    then have mem: "p \<in> set ps"
      using Cons.prems(2) by simp
    then have "fst q \<noteq> fst p"
      using fresh by force
    then show ?thesis
      using Cons.IH [OF _ mem] Cons.prems(1) by simp
  qed
qed

text \<open>A curve that is already clean (one row per \<open>years\<close>, ascending) is left as it
  is.\<close>

lemma clean_curve_fixed:
  fixes ps :: "(real \<times> real) list"
  assumes "sorted_wrt (<) (map fst ps)"
  shows "clean_curve (map (\<lambda>(x, v). \<lparr>years = Some x, rate = Some v\<rparr>) ps) = ps"
proof -
  have valid: "valid_rows (map (\<lambda>(x, v). \<lparr>years = Some x, rate = Some v\<rparr>) ps) = ps"
    by (induction ps) (auto simp: valid_rows_def)
  have srt: "sorted (map fst ps)" and dist: "distinct (map fst ps)"
    using assms strict_sorted_iff by blast+
  have rows: "sort_values_years ps = ps"
    unfolding sort_values_years_def using assms by (rule sort_key_strict_id)
  have keys: "sort (remdups (map fst ps)) = map fst ps"
    using srt dist by (simp add: sort_key_id_if_sorted)
  have "map (\<lambda>y. (y, mean (map snd (filter (\<lambda>r. fst r = y) ps)))) (map fst ps) =
      map (\<lambda>p. (fst p, mean (map snd (filter (\<lambda>r. fst r = fst p) ps)))) ps"
    by (simp add: comp_def)
  also have "\<dots> = map (\<lambda>p. p) ps"
  proof (rule map_cong [OF refl])
    fix p
    assume "p \<in> set ps"
    then have "filter (\<lambda>r. fst r = fst p) ps = [p]"
      using dist by (intro distinct_filter_key)
    then show "(fst p, mean (map snd (filter (\<lambda>r. fst r = fst p) ps))) = p"
      by simp
  qed
  finally have "map (\<lambda>y. (y, mean (map snd (filter (\<lambda>r. fst r = y) ps)))) (map fst ps) = ps"
    by simp
  then show ?thesis
    by (simp add: clean_curve_def Let_def valid rows keys)
qed

lemma add_spread_seven_points:
  "add_spread_vs_ref_par
       (map (\<lambda>(x, v). \<lparr>years = Some x, rate = Some v\<rparr>)
          [(1, 3), (2, 3), (305 / 100, 3), (405 / 100, 3), (505 / 100, 3), (605 / 100, 3),
           (705 / 100, 3)])
       (map (\<lambda>(x, v). \<lparr>years = Some x, rate = Some v\<rparr>)
          [(1, 2), (2, 2), (3, 2), (4, 2), (5, 2), (6, 2), (7, 2)]) (15 / 100) =
     Inr [(1, 100), (2, 100)]"
proof -
  let ?a = "[(1, 3), (2, 3), (305 / 100, 3), (405 / 100, 3), (505 / 100, 3), (605 / 100, 3),
           (705 / 100, 3)] :: (real \<times> real) list"
  let ?b = "[(1, 2), (2, 2), (3, 2), (4, 2), (5, 2), (6, 2), (7, 2)] :: (real \<times> real) list"
  have a: "clean_curve (map (\<lambda>(x, v). \<lparr>years = Some x, rate = Some v\<rparr>) ?a) = ?a"
    by (rule clean_curve_fixed) simp
  have b: "clean_curve (map (\<lambda>(x, v). \<lparr>years = Some x, rate = Some v\<rparr>) ?b) = ?b"
    by (rule clean_curve_fixed) simp
  show ?thesis
    unfolding add_spread_vs_ref_par_def Let_def a b seven_points by simp
qed

text \<open>
  Claim C5 (spread alignment), as amended.  For cleaned, non-empty target and reference
  curves and a tolerance that is not negative: the exact join holds the rows whose
  \<open>years\<close> are the same number on both sides (no rounding); the nearest-neighbour
  fallback runs exactly when the exact join has fewer than
  \<open>max(2, floor(0.3 * min(len(a), len(b))))\<close> rows; in fallback each target row is
  matched to the reference row nearest in \<open>years\<close> (the one of smaller \<open>years\<close> of two
  equally near) when that row is within the tolerance, and is dropped when every
  reference row is farther than the tolerance; the result holds the spread
  \<open>(target - reference) * 100\<close> of every aligned row, ascending in \<open>years\<close>.  Target
  \<open>years\<close> 2, 5, 10 against reference \<open>years\<close> 2.05, 5.1, 9.9 match all three pairs at
  tolerance 0.15 and none at tolerance 0.02.
\<close>

theorem spread_alignment:
  "a = clean_curve df_target \<Longrightarrow> b = clean_curve df_ref \<Longrightarrow> a \<noteq> [] \<Longrightarrow> b \<noteq> [] \<Longrightarrow>
   0 \<le> tol \<Longrightarrow>
     (\<forall>x y r. (x, y, r) \<in> set (exact_join a b) \<longleftrightarrow> (x, y) \<in> set a \<and> (x, r) \<in> set b)
   \<and> (needs_fallback a b (exact_join a b) \<longleftrightarrow>
        int (length (exact_join a b)) < max 2 ((3 * int (min (length a) (length b))) div 10))
   \<and> aligned_rows a b tol =
        Inr (if needs_fallback a b (exact_join a b) then merge_asof_nearest a b tol
             else exact_join a b)
   \<and> (\<exists>rows. add_spread_vs_ref_par df_target df_ref tol = Inr rows
         \<and> sorted (map fst rows)
         \<and> set rows = (\<lambda>(x, y, r). (x, (y - r) * 100)) `
              set (if needs_fallback a b (exact_join a b) then merge_asof_nearest a b tol
                   else exact_join a b))
   \<and> (\<forall>x y r. (x, y, r) \<in> set (merge_asof_nearest a b tol) \<longleftrightarrow>
          (x, y) \<in> set a \<and> (\<exists>k. nearest_match tol x b = Some (k, r)))
   \<and> (\<forall>x k r. nearest_match tol x b = Some (k, r) \<longrightarrow>
          (k, r) \<in> set b \<and> \<bar>x - k\<bar> \<le> tol
        \<and> (\<forall>(k', r') \<in> set b. \<bar>x - k\<bar> \<le> \<bar>x - k'\<bar> \<and> (\<bar>x - k'\<bar> = \<bar>x - k\<bar> \<longrightarrow> k \<le> k')))
   \<and> (\<forall>x. nearest_match tol x b = None \<longrightarrow> (\<forall>(k, r) \<in> set b. tol < \<bar>x - k\<bar>))
   \<and> add_spread_vs_ref_par
        [\<lparr>years = Some 2, rate = Some y1\<rparr>, \<lparr>years = Some 5, rate = Some y2\<rparr>,
         \<lparr>years = Some 10, rate = Some y3\<rparr>]
        [\<lparr>years = Some (205 / 100), rate = Some r1\<rparr>, \<lparr>years = Some (51 / 10), rate = Some r2\<rparr>,
         \<lparr>years = Some (99 / 10), rate = Some r3\<rparr>] (15 / 100) =
       Inr [(2, (y1 - r1) * 100), (5, (y2 - r2) * 100), (10, (y3 - r3) * 100)]
   \<and> add_spread_vs_ref_par
        [\<lparr>years = Some 2, rate = Some y1\<rparr>, \<lparr>years = Some 5, rate = Some y2\<rparr>,
         \<lparr>years = Some 10, rate = Some y3\<rparr>]
        [\<lparr>years = Some (205 / 100), rate = Some r1\<rparr>, \<lparr>years = Some (51 / 10), rate = Some r2\<rparr>,
         \<lparr>years = Some (99 / 10), rate = Some r3\<rparr>] (2 / 100) = Inr []"
proof -
  assume a: "a = clean_curve df_target" and b: "b = clean_curve df_ref"
    and ne: "a \<noteq> []" "b \<noteq> []" and tol: "0 \<le> tol"
  let ?m = "if needs_fallback a b (exact_join a b) then merge_asof_nearest a b tol
      else exact_join a b"
  have strict: "sorted_wrt (<) (map fst b)"
    unfolding b by (rule clean_curve_strict)
  have c1: "\<forall>x y r. (x, y, r) \<in> set (exact_join a b) \<longleftrightarrow> (x, y) \<in> set a \<and> (x, r) \<in> set b"
    using exact_join_iff by blast
  have c2: "needs_fallback a b (exact_join a b) \<longleftrightarrow>
      int (length (exact_join a b)) < max 2 ((3 * int (min (length a) (length b))) div 10)"
    by (rule needs_fallback_iff)
  have c3: "aligned_rows a b tol = Inr ?m"
    using tol by (simp add: aligned_rows_def Let_def)
  have run: "add_spread_vs_ref_par df_target df_ref tol =
      Inr (sort_key fst (map (\<lambda>(x, y, r). (x, (y - r) * 100)) ?m))"
    using ne c3 unfolding a b by (simp add: add_spread_vs_ref_par_def Let_def)
  have c4: "\<exists>rows. add_spread_vs_ref_par df_target df_ref tol = Inr rows
         \<and> sorted (map fst rows)
         \<and> set rows = (\<lambda>(x, y, r). (x, (y - r) * 100)) ` set ?m"
    unfolding run by (rule exI [of _ "sort_key fst (map (\<lambda>(x, y, r). (x, (y - r) * 100)) ?m)"]) simp
  have c5: "\<forall>x y r. (x, y, r) \<in> set (merge_asof_nearest a b tol) \<longleftrightarrow>
      (x, y) \<in> set a \<and> (\<exists>k. nearest_match tol x b = Some (k, r))"
    using merge_asof_nearest_iff by blast
  have c6: "\<forall>x k r. nearest_match tol x b = Some (k, r) \<longrightarrow>
          (k, r) \<in> set b \<and> \<bar>x - k\<bar> \<le> tol
        \<and> (\<forall>(k', r') \<in> set b. \<bar>x - k\<bar> \<le> \<bar>x - k'\<bar> \<and> (\<bar>x - k'\<bar> = \<bar>x - k\<bar> \<longrightarrow> k \<le> k'))"
  proof (intro allI impI)
    fix x k r
    assume "nearest_match tol x b = Some (k, r)"
    from nearest_match_Some [OF strict this]
    show "(k, r) \<in> set b \<and> \<bar>x - k\<bar> \<le> tol
        \<and> (\<forall>(k', r') \<in> set b. \<bar>x - k\<bar> \<le> \<bar>x - k'\<bar> \<and> (\<bar>x - k'\<bar> = \<bar>x - k\<bar> \<longrightarrow> k \<le> k'))"
      by fastforce
  qed
  have c7: "\<forall>x. nearest_match tol x b = None \<longrightarrow> (\<forall>(k, r) \<in> set b. tol < \<bar>x - k\<bar>)"
  proof (intro allI impI ballI, clarify)
    fix x k r
    assume "nearest_match tol x b = None" "(k, r) \<in> set b"
    from nearest_match_None [OF strict this] show "tol < \<bar>x - k\<bar>"
      by simp
  qed
  show ?thesis
    by (intro conjI c1 c2 c3 c4 c5 c6 c7 add_spread_example_wide add_spread_example_tight)
qed

theorem spread_alignment_witness:
  "clean_curve [\<lparr>years = Some 2, rate = Some 3\<rparr>, \<lparr>years = Some 5, rate = Some 4\<rparr>,
       \<lparr>years = Some 10, rate = Some 5\<rparr>] = [(2, 3), (5, 4), (10, 5)]
   \<and> clean_curve [\<lparr>years = Some (205 / 100), rate = Some 2\<rparr>,
       \<lparr>years = Some (51 / 10), rate = Some 3\<rparr>, \<lparr>years = Some (99 / 10), rate = Some 4\<rparr>] =
       [(205 / 100, 2), (51 / 10, 3), (99 / 10, 4)]
   \<and> needs_fallback [(2, 3), (5, 4), (10, 5)] [(205 / 100, 2), (51 / 10, 3), (99 / 10, 4)]
       (exact_join [(2, 3), (5, 4), (10, 5)] [(205 / 100, 2), (51 / 10, 3), (99 / 10, 4)])
   \<and> aligned_rows [(2, 3), (5, 4), (10, 5)] [(205 / 100, 2), (51 / 10, 3), (99 / 10, 4)]
       (15 / 100) =
       Inr (merge_asof_nearest [(2, 3), (5, 4), (10, 5)]
             [(205 / 100, 2), (51 / 10, 3), (99 / 10, 4)] (15 / 100))
   \<and> add_spread_vs_ref_par
        [\<lparr>years = Some 2, rate = Some 3\<rparr>, \<lparr>years = Some 5, rate = Some 4\<rparr>,
         \<lparr>years = Some 10, rate = Some 5\<rparr>]
        [\<lparr>years = Some (205 / 100), rate = Some 2\<rparr>, \<lparr>years = Some (51 / 10), rate = Some 3\<rparr>,
         \<lparr>years = Some (99 / 10), rate = Some 4\<rparr>] (15 / 100) =
       Inr [(2, (3 - 2) * 100), (5, (4 - 3) * 100), (10, (5 - 4) * 100)]"
proof -
  let ?dt = "[\<lparr>years = Some 2, rate = Some 3\<rparr>, \<lparr>years = Some 5, rate = Some 4\<rparr>,
       \<lparr>years = Some 10, rate = Some 5\<rparr>]"
  let ?dr = "[\<lparr>years = Some (205 / 100), rate = Some 2\<rparr>,
       \<lparr>years = Some (51 / 10), rate = Some 3\<rparr>, \<lparr>years = Some (99 / 10), rate = Some 4\<rparr>]"
  let ?a = "[(2, 3), (5, 4), (10, 5)] :: (real \<times> real) list"
  let ?b = "[(205 / 100, 2), (51 / 10, 3), (99 / 10, 4)] :: (real \<times> real) list"
  have a: "clean_curve ?dt = ?a"
    by (rule clean_curve_three) simp_all
  have b: "clean_curve ?dr = ?b"
    by (rule clean_curve_three) simp_all
  have h1: "?a = clean_curve ?dt" and h2: "?b = clean_curve ?dr"
    by (simp_all only: a b)
  have h3: "?a \<noteq> []" and h4: "?b \<noteq> []" and h5: "(0::real) \<le> 15 / 100"
    by simp_all
  note h = spread_alignment [OF h1 h2 h3 h4 h5, of 3 4 5 2 3 4]
  have "int (length (exact_join ?a ?b)) < max 2 ((3 * int (min (length ?a) (length ?b))) div 10)"
    by (simp add: exact_join_def)
  with h have fb: "needs_fallback ?a ?b (exact_join ?a ?b)"
    by blast
  from h have "aligned_rows ?a ?b (15 / 100) =
      Inr (if needs_fallback ?a ?b (exact_join ?a ?b) then merge_asof_nearest ?a ?b (15 / 100)
           else exact_join ?a ?b)"
    by blast
  then have al: "aligned_rows ?a ?b (15 / 100) = Inr (merge_asof_nearest ?a ?b (15 / 100))"
    using fb by (simp only: if_True)
  from h have ex: "add_spread_vs_ref_par ?dt ?dr (15 / 100) =
      Inr [(2, (3 - 2) * 100), (5, (4 - 3) * 100), (10, (5 - 4) * 100)]"
    by blast
  show ?thesis
    using a b fb al ex by blast
qed

theorem spread_alignment_counterexample:
  "add_spread_vs_ref_par
       [\<lparr>years = Some 1, rate = Some 3\<rparr>, \<lparr>years = Some 2, rate = Some 3\<rparr>,
        \<lparr>years = Some (30000001 / 10000000), rate = Some 3\<rparr>]
       [\<lparr>years = Some 1, rate = Some 2\<rparr>, \<lparr>years = Some 2, rate = Some 2\<rparr>,
        \<lparr>years = Some 3, rate = Some 2\<rparr>] (15 / 100) =
     Inr [(1, 100), (2, 100)]
   \<and> round_half_even (30000001 / 10000000 * 10 ^ 6) = round_half_even (3 * 10 ^ 6)
   \<and> add_spread_vs_ref_par
       (map (\<lambda>(x, v). \<lparr>years = Some x, rate = Some v\<rparr>)
          [(1, 3), (2, 3), (305 / 100, 3), (405 / 100, 3), (505 / 100, 3), (605 / 100, 3),
           (705 / 100, 3)])
       (map (\<lambda>(x, v). \<lparr>years = Some x, rate = Some v\<rparr>)
          [(1, 2), (2, 2), (3, 2), (4, 2), (5, 2), (6, 2), (7, 2)]) (15 / 100) =
     Inr [(1, 100), (2, 100)]
   \<and> (2 :: real) < max 2 (30 / 100 * 7)"
proof -
  have r: "round_half_even (30000001 / 10000000 * 10 ^ 6) = round_half_even (3 * 10 ^ 6)"
    by (simp add: round_half_even_def)
  have m: "(2 :: real) < max 2 (30 / 100 * 7)"
    by simp
  show ?thesis
    using add_spread_unrounded r add_spread_seven_points m by blast
qed

section \<open>Tenor parsing\<close>

subsection \<open>Integers up to \<open>2^53\<close> are doubles\<close>

lemma pow2_powi: "pow2 e = 2 powi e"
  by (simp add: pow2_def power_int_def inverse_eq_divide power_one_over)

lemma pow2_pos: "0 < pow2 e"
  by (simp add: pow2_powi)

lemma pow2_mono: "a \<le> b \<Longrightarrow> pow2 a \<le> pow2 b"
  unfolding pow2_powi by (rule power_int_increasing) simp_all

lemma pow2_less_cancel: "pow2 a < pow2 b \<Longrightarrow> a < b"
proof (rule ccontr)
  assume lt: "pow2 a < pow2 b" and "\<not> a < b"
  then have "b \<le> a"
    by simp
  then have "pow2 b \<le> pow2 a"
    by (rule pow2_mono)
  with lt show False
    by simp
qed

lemma bsearch_le: "lo \<le> e \<Longrightarrow> x < pow2 (e + 1) \<Longrightarrow> bsearch k lo x \<le> e"
proof (induction k arbitrary: lo)
  case 0
  then show ?case
    by simp
next
  case (Suc k)
  show ?case
  proof (cases "pow2 (lo + 2 ^ k) \<le> x")
    case True
    with Suc.prems have "pow2 (lo + 2 ^ k) < pow2 (e + 1)"
      by simp
    then have "lo + 2 ^ k < e + 1"
      by (rule pow2_less_cancel)
    then have "bsearch k (lo + 2 ^ k) x \<le> e"
      using Suc.prems by (intro Suc.IH) simp_all
    with True show ?thesis
      by simp
  next
    case False
    with Suc.IH [OF Suc.prems] show ?thesis
      by simp
  qed
qed

lemma bsearch_ge: "lo \<le> bsearch k lo x"
proof (induction k arbitrary: lo)
  case 0
  show ?case
    by simp
next
  case (Suc k)
  have "lo \<le> lo + 2 ^ k"
    by simp
  also have "\<dots> \<le> bsearch k (lo + 2 ^ k) x"
    by (rule Suc.IH)
  finally show ?case
    using Suc.IH [of lo] by simp
qed

lemma bsearch_lower: "pow2 lo \<le> x \<Longrightarrow> pow2 (bsearch k lo x) \<le> x"
  by (induction k arbitrary: lo) simp_all

lemma binade_le: "\<bar>x\<bar> < 2 ^ 54 \<Longrightarrow> binade x \<le> 53"
  unfolding binade_def by (rule bsearch_le) (simp_all add: pow2_def)

lemma binade_ge: "- 1022 \<le> binade x"
  unfolding binade_def by (rule bsearch_ge)

lemma binade_lower: "1 \<le> \<bar>x\<bar> \<Longrightarrow> pow2 (binade x) \<le> \<bar>x\<bar>"
proof -
  assume "1 \<le> \<bar>x\<bar>"
  moreover have "pow2 (- 1022) \<le> 1"
    by (simp add: pow2_def)
  ultimately have "pow2 (- 1022) \<le> \<bar>x\<bar>"
    by simp
  then show ?thesis
    unfolding binade_def by (rule bsearch_lower)
qed

lemma fl_of_int:
  fixes i :: int
  assumes le: "\<bar>i\<bar> \<le> 2 ^ 53"
  shows "fl (of_int i) = of_int i"
proof (cases "i = 0")
  case True
  then show ?thesis
    by simp
next
  case False
  define x :: real where "x = of_int i"
  define e where "e = binade x"
  have abs: "\<bar>x\<bar> = of_int \<bar>i\<bar>"
    by (simp add: x_def)
  from False have "1 \<le> \<bar>i\<bar>"
    by arith
  then have "(of_int 1 :: real) \<le> of_int \<bar>i\<bar>"
    by (simp only: of_int_le_iff)
  then have one: "1 \<le> \<bar>x\<bar>"
    unfolding abs by simp
  have "\<bar>x\<bar> \<le> 2 ^ 53"
    unfolding abs using le by (metis of_int_le_iff of_int_numeral of_int_power)
  then have up: "\<bar>x\<bar> < 2 ^ 54"
    by simp
  have e53: "e \<le> 53"
    unfolding e_def using up by (rule binade_le)
  have low: "pow2 e \<le> \<bar>x\<bar>"
    unfolding e_def using one by (rule binade_lower)
  have "\<exists>k :: int. x / pow2 (e - 52) = of_int k"
  proof (cases "e \<le> 52")
    case True
    then have "pow2 (e - 52) = 1 / 2 ^ nat (52 - e)"
      by (cases "e = 52") (simp_all add: pow2_def)
    then have "x / pow2 (e - 52) = of_int (i * 2 ^ nat (52 - e))"
      by (simp add: x_def)
    then show ?thesis
      by blast
  next
    case False
    with e53 have e: "e = 53"
      by simp
    from low have "2 ^ 53 \<le> \<bar>x\<bar>"
      by (simp add: e pow2_def)
    with \<open>\<bar>x\<bar> \<le> 2 ^ 53\<close> have "\<bar>x\<bar> = 2 ^ 53"
      by simp
    then have "x = 2 ^ 53 \<or> x = - (2 ^ 53)"
      by (simp add: abs_if split: if_splits)
    moreover have "pow2 (e - 52) = 2"
      by (simp add: e pow2_def)
    moreover have "(2 :: real) ^ 53 / 2 = of_int (2 ^ 52)" "- ((2 :: real) ^ 53) / 2 = of_int (- (2 ^ 52))"
      by simp_all
    ultimately show ?thesis
      by metis
  qed
  then obtain k :: int where k: "x / pow2 (e - 52) = of_int k"
    by blast
  have "fl x = of_int (round_half_even (x / pow2 (e - 52))) * pow2 (e - 52)"
    by (simp add: fl_def Let_def e_def)
  also have "\<dots> = x / pow2 (e - 52) * pow2 (e - 52)"
    unfolding k by simp
  also have "\<dots> = x"
    using pow2_pos [of "e - 52"] by simp
  finally show ?thesis
    by (simp add: x_def)
qed

lemma fl_small:
  assumes le: "\<bar>x\<bar> \<le> 2 ^ 53"
  shows "\<bar>fl x\<bar> < 2 ^ 1024"
proof -
  define u where "u = pow2 (binade x - 52)"
  define y where "y = x / u"
  have u0: "0 < u"
    unfolding u_def by (rule pow2_pos)
  have "binade x \<le> 53"
    using le by (intro binade_le) simp
  then have "u \<le> pow2 1"
    unfolding u_def by (intro pow2_mono) simp
  then have u2: "u \<le> 2"
    by (simp add: pow2_def)
  have "real_of_int (round_half_even y) \<le> real_of_int (\<lfloor>y\<rfloor> + 1)"
    using round_half_even_bounds(2) [of y] by (simp only: of_int_le_iff)
  then have hi: "real_of_int (round_half_even y) \<le> y + 1"
    by linarith
  have "real_of_int \<lfloor>y\<rfloor> \<le> real_of_int (round_half_even y)"
    using round_half_even_bounds(1) [of y] by (simp only: of_int_le_iff)
  then have lo: "y - 1 \<le> real_of_int (round_half_even y)"
    by linarith
  have "\<bar>real_of_int (round_half_even y)\<bar> \<le> \<bar>y\<bar> + 1"
    using lo hi by linarith
  then have "\<bar>real_of_int (round_half_even y)\<bar> * u \<le> (\<bar>y\<bar> + 1) * u"
    using u0 by (simp add: mult_right_mono)
  also have "\<dots> = \<bar>x\<bar> + u"
    using u0 by (simp add: y_def algebra_simps abs_mult)
  finally have "\<bar>real_of_int (round_half_even y) * u\<bar> \<le> \<bar>x\<bar> + u"
    using u0 by (simp add: abs_mult)
  moreover have "fl x = real_of_int (round_half_even y) * u"
    by (simp add: fl_def Let_def u_def y_def)
  ultimately have "\<bar>fl x\<bar> \<le> 2 ^ 53 + 2"
    using le u2 by linarith
  also have "\<dots> < (2 :: real) ^ 1024"
    by simp
  finally show ?thesis .
qed

subsection \<open>Reading a string of decimal digits\<close>

lemma to_double_of_nat: "n \<le> 2 ^ 53 \<Longrightarrow> to_double (real n) = Finite (real n)"
proof -
  assume "n \<le> 2 ^ 53"
  then have "int n \<le> int (2 ^ 53)"
    by (simp only: of_nat_le_iff)
  then have le: "\<bar>int n\<bar> \<le> 2 ^ 53"
    by simp
  have ex: "fl (real n) = real n"
    using fl_of_int [OF le] by simp
  have "\<bar>real n\<bar> \<le> 2 ^ 53"
    using le by (metis abs_of_nat of_int_le_iff of_int_numeral of_int_of_nat_eq of_int_power)
  then have "\<bar>fl (real n)\<bar> < 2 ^ 1024"
    by (rule fl_small)
  then show ?thesis
    unfolding to_double_def Let_def ex by simp
qed

lemma digit_not_space: "is_digit c \<Longrightarrow> \<not> c_space c"
  by (auto simp add: is_digit_def c_space_def)

lemma digit_not_mark:
  "is_digit c \<Longrightarrow> c \<noteq> CHR ''_'' \<and> c \<noteq> CHR ''-'' \<and> c \<noteq> CHR ''+''"
  by (auto simp add: is_digit_def)

lemma strip_with_digits:
  assumes "ds \<noteq> []" "\<forall>c \<in> set ds. is_digit c"
  shows "strip_with c_space ds = ds"
proof -
  have "\<not> c_space (hd ds)"
    using assms by (intro digit_not_space) simp
  then have front: "dropWhile c_space ds = ds"
    by (simp add: dropWhile_eq_self_iff)
  have "\<not> c_space (last ds)"
    using assms by (intro digit_not_space) simp
  then have "\<not> c_space (hd (rev ds))"
    using assms(1) by (simp add: hd_rev)
  then have "dropWhile c_space (rev ds) = rev ds"
    by (simp add: dropWhile_eq_self_iff)
  with front show ?thesis
    by (simp add: strip_with_def)
qed

lemma underscores_digits:
  "prev \<noteq> CHR ''_'' \<Longrightarrow> \<forall>c \<in> set ds. is_digit c \<Longrightarrow> underscores prev ds = Some ds"
proof (induction ds arbitrary: prev)
  case Nil
  then show ?case
    by simp
next
  case (Cons c cs)
  from Cons.prems have c: "is_digit c" and cs: "\<forall>c \<in> set cs. is_digit c"
    by simp_all
  from c have mark: "c \<noteq> CHR ''_''"
    by (simp add: digit_not_mark)
  from Cons.IH [OF mark cs] c mark show ?case
    by simp
qed

lemma sign_split_digits: "ds \<noteq> [] \<Longrightarrow> is_digit (hd ds) \<Longrightarrow> sign_split ds = (False, ds)"
  by (cases ds) (simp_all add: sign_split_def digit_not_mark)

lemma strtod_digits:
  assumes ne: "ds \<noteq> []" and dig: "\<forall>c \<in> set ds. is_digit c"
  shows "strtod ds = Some (real (digits_val ds), [])"
proof -
  have sign: "sign_split ds = (False, ds)"
    using ne dig by (intro sign_split_digits) simp_all
  have ip: "takeWhile is_digit ds = ds"
    using dig by (simp add: takeWhile_eq_all_conv)
  have rest: "dropWhile is_digit ds = []"
    using dig by simp
  show ?thesis
    using ne by (simp add: strtod_def sign ip rest exponent_def)
qed

lemma float_of_str_digits:
  assumes ne: "ds \<noteq> []" and dig: "\<forall>c \<in> set ds. is_digit c"
  shows "float_of_str ds = Inr (to_double (real (digits_val ds)))"
proof -
  have strip: "strip_with c_space ds = ds"
    using ne dig by (rule strip_with_digits)
  have under: "underscores (CHR 0x00) ds = Some ds"
    using dig by (intro underscores_digits) simp_all
  show ?thesis
    using ne by (simp add: float_of_str_def strip under strtod_digits [OF ne dig])
qed

lemma endswith_append [simp]: "endswith (ds @ [c]) d \<longleftrightarrow> c = d"
  by (simp add: endswith_def)

lemma div_12_small:
  assumes "n \<le> 2 ^ 53"
  shows "div_12 (Finite (real n)) = Finite (fl (real n / 12))"
proof -
  have "real n \<le> 2 ^ 53"
    using assms by (metis of_nat_le_iff of_nat_numeral of_nat_power)
  then have "\<bar>real n / 12\<bar> \<le> 2 ^ 53"
    by simp
  then have "\<bar>fl (real n / 12)\<bar> < 2 ^ 1024"
    by (rule fl_small)
  then show ?thesis
    by (simp add: div_12_def to_double_def Let_def)
qed

lemma float_of_pyint_small: "\<bar>i\<bar> \<le> 2 ^ 53 \<Longrightarrow> float_of_pyint i = Inr (Finite (of_int i))"
proof -
  assume le: "\<bar>i\<bar> \<le> 2 ^ 53"
  have ex: "fl (of_int i) = of_int i"
    using le by (rule fl_of_int)
  have "\<bar>real_of_int i\<bar> \<le> 2 ^ 53"
    using le by (metis of_int_abs of_int_le_iff of_int_numeral of_int_power)
  then have "\<bar>fl (of_int i)\<bar> < 2 ^ 1024"
    by (rule fl_small)
  then show ?thesis
    unfolding float_of_pyint_def Let_def ex by simp
qed

subsection \<open>The parsers on concrete labels\<close>

lemma strip_upper_10y: "py_upper (py_strip '' 10y '') = ''10'' @ ''Y''"
  by (simp add: py_strip_def strip_with_def str_space_def py_upper_def upper_char_def)

lemma strip_upper_6M: "py_upper (py_strip ''6M'') = ''6'' @ ''M''"
  by (simp add: py_strip_def strip_with_def str_space_def py_upper_def upper_char_def)

lemma strip_upper_ON: "py_upper (py_strip ''ON'') = ''ON''"
  by (simp add: py_strip_def strip_with_def str_space_def py_upper_def upper_char_def)

lemma strip_upper_TOM: "py_upper (py_strip ''ToM'') = ''TOM''"
  by (simp add: py_strip_def strip_with_def str_space_def py_upper_def upper_char_def)

lemma strip_upper_Y: "py_upper (py_strip ''Y'') = ''Y''"
  by (simp add: py_strip_def strip_with_def str_space_def py_upper_def upper_char_def)

lemma float_of_str_empty: "float_of_str [] = Inl ValueError"
  by (simp add: float_of_str_def strip_with_def)

lemma float_of_str_TO: "float_of_str ''TO'' = Inl ValueError"
  by (simp add: float_of_str_def strip_with_def c_space_def is_digit_def strtod_def
      sign_split_def parse_inf_or_nan_def py_upper_def upper_char_def)

lemma label_Y: "priv_tenor_to_years (PyStr ''Y'') = Inl ValueError"
  unfolding priv_tenor_to_years_def py_value.case strip_upper_Y Let_def
  by (simp add: endswith_def float_of_str_empty)

lemma label_TOM: "priv_tenor_to_years (PyStr ''ToM'') = Inl ValueError"
  unfolding priv_tenor_to_years_def py_value.case strip_upper_TOM Let_def
  by (simp add: endswith_def float_of_str_TO)

lemma analytics_TOM: "tenor_to_years (PyStr ''ToM'') = Inl ValueError"
  unfolding tenor_to_years_def py_value.case strip_upper_TOM Let_def
  by (simp add: endswith_def float_of_str_TO)

lemma analytics_numeric: "tenor_to_years (PyInt 5) = Inr None"
  by (simp add: tenor_to_years_def)

lemma calc_numeric: "priv_tenor_to_years (PyInt 5) = Inr (Some (Finite 5))"
  using float_of_pyint_small [of 5] by (simp add: priv_tenor_to_years_def)

text \<open>
  Claim C8 (tenor parsing), as amended.  \<open>_tenor_to_years\<close> returns, without raising:
  \<open>None\<close> on \<open>None\<close>; a float unchanged; an integer of magnitude at most \<open>2^53\<close> as
  the same number; on a string that, stripped and upper-cased, is a non-empty run of
  decimal digits of value \<open>n \<le> 2^53\<close> followed by \<open>Y\<close>, the number \<open>n\<close>, and followed
  by \<open>M\<close>, the double nearest to \<open>n / 12\<close>; and \<open>None\<close> on a string that, stripped and
  upper-cased, ends in neither \<open>Y\<close> nor \<open>M\<close>.  \<open>tenor_to_years\<close> agrees with it on every
  string and returns \<open>None\<close> on everything that is not a string, numbers included.
\<close>

theorem tenor_parsing:
  "priv_tenor_to_years PyNone = Inr None
   \<and> priv_tenor_to_years (PyFloat x) = Inr (Some x)
   \<and> (\<bar>i\<bar> \<le> 2 ^ 53 \<longrightarrow> priv_tenor_to_years (PyInt i) = Inr (Some (Finite (of_int i))))
   \<and> (ys \<noteq> [] \<and> (\<forall>c \<in> set ys. is_digit c) \<and> digits_val ys \<le> 2 ^ 53
        \<and> py_upper (py_strip ty) = ys @ ''Y'' \<longrightarrow>
        priv_tenor_to_years (PyStr ty) = Inr (Some (Finite (real (digits_val ys)))))
   \<and> (ms \<noteq> [] \<and> (\<forall>c \<in> set ms. is_digit c) \<and> digits_val ms \<le> 2 ^ 53
        \<and> py_upper (py_strip tm) = ms @ ''M'' \<longrightarrow>
        priv_tenor_to_years (PyStr tm) = Inr (Some (Finite (fl (real (digits_val ms) / 12)))))
   \<and> (\<not> endswith (py_upper (py_strip t)) CHR ''Y'' \<and> \<not> endswith (py_upper (py_strip t)) CHR ''M''
        \<longrightarrow> priv_tenor_to_years (PyStr t) = Inr None)
   \<and> tenor_to_years (PyStr t) = priv_tenor_to_years (PyStr t)
   \<and> ((\<forall>u. v \<noteq> PyStr u) \<longrightarrow> tenor_to_years v = Inr None)"
proof -
  have c1: "priv_tenor_to_years PyNone = Inr None"
    by (simp add: priv_tenor_to_years_def)
  have c2: "priv_tenor_to_years (PyFloat x) = Inr (Some x)"
    by (simp add: priv_tenor_to_years_def)
  have c3: "\<bar>i\<bar> \<le> 2 ^ 53 \<longrightarrow> priv_tenor_to_years (PyInt i) = Inr (Some (Finite (of_int i)))"
    by (simp add: priv_tenor_to_years_def float_of_pyint_small)
  have c4: "ys \<noteq> [] \<and> (\<forall>c \<in> set ys. is_digit c) \<and> digits_val ys \<le> 2 ^ 53
        \<and> py_upper (py_strip ty) = ys @ ''Y'' \<longrightarrow>
      priv_tenor_to_years (PyStr ty) = Inr (Some (Finite (real (digits_val ys))))"
  proof (intro impI, elim conjE)
    assume ne: "ys \<noteq> []" and dig: "\<forall>c \<in> set ys. is_digit c" and le: "digits_val ys \<le> 2 ^ 53"
      and s: "py_upper (py_strip ty) = ys @ ''Y''"
    have "float_of_str ys = Inr (Finite (real (digits_val ys)))"
      unfolding float_of_str_digits [OF ne dig] to_double_of_nat [OF le] ..
    then show "priv_tenor_to_years (PyStr ty) = Inr (Some (Finite (real (digits_val ys))))"
      unfolding priv_tenor_to_years_def py_value.case s Let_def by simp
  qed
  have c5: "ms \<noteq> [] \<and> (\<forall>c \<in> set ms. is_digit c) \<and> digits_val ms \<le> 2 ^ 53
        \<and> py_upper (py_strip tm) = ms @ ''M'' \<longrightarrow>
      priv_tenor_to_years (PyStr tm) = Inr (Some (Finite (fl (real (digits_val ms) / 12))))"
  proof (intro impI, elim conjE)
    assume ne: "ms \<noteq> []" and dig: "\<forall>c \<in> set ms. is_digit c" and le: "digits_val ms \<le> 2 ^ 53"
      and s: "py_upper (py_strip tm) = ms @ ''M''"
    have "float_of_str ms = Inr (Finite (real (digits_val ms)))"
      unfolding float_of_str_digits [OF ne dig] to_double_of_nat [OF le] ..
    then show "priv_tenor_to_years (PyStr tm) = Inr (Some (Finite (fl (real (digits_val ms) / 12))))"
      unfolding priv_tenor_to_years_def py_value.case s Let_def
      by (simp add: div_12_small [OF le])
  qed
  have c6: "\<not> endswith (py_upper (py_strip t)) CHR ''Y''
        \<and> \<not> endswith (py_upper (py_strip t)) CHR ''M'' \<longrightarrow>
      priv_tenor_to_years (PyStr t) = Inr None"
    by (simp add: priv_tenor_to_years_def Let_def)
  have c7: "tenor_to_years (PyStr t) = priv_tenor_to_years (PyStr t)"
    by (simp add: priv_tenor_to_years_def tenor_to_years_def)
  have c8: "(\<forall>u. v \<noteq> PyStr u) \<longrightarrow> tenor_to_years v = Inr None"
    by (cases v) (simp_all add: tenor_to_years_def)
  show ?thesis
    by (intro conjI c1 c2 c3 c4 c5 c6 c7 c8)
qed

theorem tenor_parsing_witness:
  "priv_tenor_to_years (PyStr '' 10y '') = Inr (Some (Finite 10))
   \<and> priv_tenor_to_years (PyStr ''6M'') = Inr (Some (Finite (1 / 2)))
   \<and> priv_tenor_to_years (PyStr ''ON'') = Inr None
   \<and> priv_tenor_to_years (PyInt 5) = Inr (Some (Finite 5))
   \<and> tenor_to_years (PyStr ''ON'') = Inr None
   \<and> tenor_to_years (PyInt 5) = Inr None"
proof -
  note h = tenor_parsing [of "Finite 0" 5 "''10''" "'' 10y ''" "''6''" "''6M''" "''ON''" "PyInt 5"]
  have d10: "digits_val ''10'' = 10" and d6: "digits_val ''6'' = 6"
    by (simp_all add: digits_val_def digit_val_def)
  have hy: "''10'' \<noteq> [] \<and> (\<forall>c \<in> set ''10''. is_digit c) \<and> digits_val ''10'' \<le> 2 ^ 53
      \<and> py_upper (py_strip '' 10y '') = ''10'' @ ''Y''"
    unfolding d10 strip_upper_10y by (simp add: is_digit_def)
  have hm: "''6'' \<noteq> [] \<and> (\<forall>c \<in> set ''6''. is_digit c) \<and> digits_val ''6'' \<le> 2 ^ 53
      \<and> py_upper (py_strip ''6M'') = ''6'' @ ''M''"
    unfolding d6 strip_upper_6M by (simp add: is_digit_def)
  have ho: "\<not> endswith (py_upper (py_strip ''ON'')) CHR ''Y''
      \<and> \<not> endswith (py_upper (py_strip ''ON'')) CHR ''M''"
    unfolding strip_upper_ON by (simp add: endswith_def)
  have hi: "\<bar>5 :: int\<bar> \<le> 2 ^ 53"
    by simp
  have hv: "\<forall>u. PyInt 5 \<noteq> PyStr u"
    by simp
  from h hy have "priv_tenor_to_years (PyStr '' 10y '') = Inr (Some (Finite (real (digits_val ''10''))))"
    by blast
  then have r1: "priv_tenor_to_years (PyStr '' 10y '') = Inr (Some (Finite 10))"
    unfolding d10 by simp
  from h hm have "priv_tenor_to_years (PyStr ''6M'') =
      Inr (Some (Finite (fl (real (digits_val ''6'') / 12))))"
    by blast
  then have r2: "priv_tenor_to_years (PyStr ''6M'') = Inr (Some (Finite (1 / 2)))"
    unfolding d6 by simp
  from h ho have r3: "priv_tenor_to_years (PyStr ''ON'') = Inr None"
    by blast
  from h hi have "priv_tenor_to_years (PyInt 5) = Inr (Some (Finite (of_int 5)))"
    by blast
  then have r4: "priv_tenor_to_years (PyInt 5) = Inr (Some (Finite 5))"
    by simp
  from h r3 have r5: "tenor_to_years (PyStr ''ON'') = Inr None"
    by simp
  from h hv have r6: "tenor_to_years (PyInt 5) = Inr None"
    by blast
  show ?thesis
    by (intro conjI r1 r2 r3 r4 r5 r6)
qed

theorem tenor_parsing_counterexample:
  "priv_tenor_to_years (PyStr ''Y'') = Inl ValueError
   \<and> priv_tenor_to_years (PyStr ''ToM'') = Inl ValueError
   \<and> tenor_to_years (PyStr ''ToM'') = Inl ValueError
   \<and> tenor_to_years (PyInt 5) = Inr None
   \<and> priv_tenor_to_years (PyInt 5) = Inr (Some (Finite 5))"
  by (intro conjI label_Y label_TOM analytics_TOM analytics_numeric calc_numeric)

end
